theory Spec2Isabelle
  imports Complex_Main
begin

section \<open>Numbers\<close>

text \<open>
  The viewer (\<^verbatim>\<open>src/app/page.tsx\<close>) computes with JavaScript numbers, which are IEEE 754
  doubles. A double is the real number it stands for, and an arithmetic operation of
  the code is the exact operation followed by the rounding \<open>fl\<close> to the nearest double,
  ties going to the even significand. \<open>Math.max\<close>, \<open>Math.min\<close> and \<open>Math.floor\<close> are exact
  on doubles and so are \<open>max\<close>, \<open>min\<close> and \<open>floor\<close>. A literal such as \<open>0.1\<close> is the
  double nearest to it, \<open>fl (1 / 10)\<close>.

  \<open>NaN\<close> and the infinities are not numbers of the model. A division by zero and a
  result too large for a double (\<open>in_range\<close> fails) are excluded by hypotheses wherever
  the renderer's arithmetic is used.

  The zoom state of the session is kept as the exact tenths \<open>0.5, 0.6, \<dots>, 3.0\<close>; the
  renderer receives the double nearest to it.
\<close>

text \<open>The number of binary digits of a natural number.\<close>

fun bits :: "nat \<Rightarrow> nat" where
  "bits n = (if n = 0 then 0 else Suc (bits (n div 2)))"

declare bits.simps [simp del]

text \<open>
  The binary exponent of a nonzero real: the \<open>e\<close> with \<open>2 ^ e \<le> |x| < 2 ^ (e + 1)\<close>.
\<close>

definition binade :: "real \<Rightarrow> int" where
  "binade x =
     (if 1 \<le> \<bar>x\<bar> then int (bits (nat \<lfloor>\<bar>x\<bar>\<rfloor>)) - 1
      else - int (bits (nat (\<lceil>1 / \<bar>x\<bar>\<rceil> - 1))))"

text \<open>The nearest integer, the even one of two that are equally near.\<close>

definition round_even :: "real \<Rightarrow> int" where
  "round_even y =
     (let n = \<lfloor>y\<rfloor>; r = y - real_of_int n
      in if r < 1 / 2 then n
         else if 1 / 2 < r then n + 1
         else if even n then n else n + 1)"

text \<open>
  The nearest double: 53 significant bits, so a multiple of \<open>2 ^ (e - 52)\<close> in the
  binade \<open>e\<close>, and of \<open>2 ^ (- 1074)\<close> below the smallest normal binade \<open>- 1022\<close>.
\<close>

definition fl :: "real \<Rightarrow> real" where
  "fl x =
     (if x = 0 then 0
      else (let u = 2 powi (max (binade x) (- 1022) - 52)
            in real_of_int (round_even (x / u)) * u))"

text \<open>
  An exact result that rounds to a finite double: less in magnitude than the largest
  double plus half a unit of its last place.
\<close>

definition in_range :: "real \<Rightarrow> bool" where
  "in_range x \<longleftrightarrow> \<bar>x\<bar> < 2 ^ 1024 - 2 ^ 970"

section \<open>The rendering library, as the page renderer sees it\<close>

text \<open>
  \<open>pdf: any\<close> and the page it hands out are objects of pdf.js. The renderer uses three
  of their operations: \<open>pdf.getPage(n)\<close> (a promise; \<open>None\<close> is its rejection),
  \<open>page.getViewport({scale})\<close> and \<open>page.render(...)\<close>. A viewport is read only through
  \<open>width\<close> and \<open>height\<close>.
\<close>

record viewport =
  vp_width :: real
  vp_height :: real

record pdf_page =
  getViewport :: "real \<Rightarrow> viewport"

record pdf_document =
  doc_numPages :: nat
  getPage :: "nat \<Rightarrow> pdf_page option"

text \<open>
  The calls the renderer makes on the library and on the canvas, in the order it makes
  them. \<open>Render vp t\<close> is \<open>page.render({canvasContext, viewport: vp, transform: t})\<close>.
\<close>

datatype lib_call =
    GetPage nat
  | GetViewport real
  | GetContext2d
  | Render viewport "real list"

fun is_Render :: "lib_call \<Rightarrow> bool" where
  "is_Render (Render vp t) = True"
| "is_Render c = False"

section \<open>PageCanvas\<close>

text \<open>
  The canvas element behind \<open>canvasRef\<close>: the numbers assigned to its backing store
  (\<open>canvas.width\<close>, \<open>canvas.height\<close>), its CSS size in pixels (\<open>canvas.style.width\<close>
  and \<open>canvas.style.height\<close>, the strings \<open>`${n}px`\<close>; \<open>None\<close> while unset) and whether
  \<open>getContext("2d")\<close> hands out a context.
\<close>

record canvas =
  canvas_width :: int
  canvas_height :: int
  style_width :: "int option"
  style_height :: "int option"
  context2d :: bool

text \<open>The props of one \<open>PageCanvas\<close>.\<close>

record page_props =
  pdf :: pdf_document
  pageNumber :: nat
  fitWidth :: real
  zoom :: real
  dpr :: real

text \<open>
  One mounted \<open>PageCanvas\<close>: the state of \<open>useIntersection\<close> (\<open>visible\<close>), the ref to
  the canvas, the \<open>pageSize\<close> state \<open>(wCSS, hCSS)\<close>, the dependency list with which
  the current \<open>renderPage\<close> callback was made (\<open>None\<close> before the first commit), the
  log of calls made so far, and the calls of \<open>renderPage\<close> that wait for their page:
  each is a closure over the props it was made with.
\<close>

record page_canvas =
  visible :: bool
  canvasRef :: "canvas option"
  pageSize :: "int \<times> int"
  deps :: "(page_props \<times> bool) option"
  calls :: "lib_call list"
  inflight :: "page_props list"

text \<open>
  \<open>renderPage\<close>, lines 68-70: the test of line 69 and the call of \<open>pdf.getPage\<close>, at
  whose await the function is suspended.
\<close>

definition renderPage :: "page_props \<Rightarrow> page_canvas \<Rightarrow> page_canvas" where
  "renderPage p c =
     (if \<not> visible c \<or> canvasRef c = None then c
      else c\<lparr>calls := calls c @ [GetPage (pageNumber p)],
             inflight := inflight c @ [p]\<rparr>)"

text \<open>
  \<open>renderPage\<close>, lines 70-95: the \<open>k\<close>-th waiting call goes on once its \<open>getPage\<close>
  has settled. A rejection ends it. Otherwise it computes the scale from the props of
  its closure, reads the ref again (a detached canvas makes \<open>canvas.getContext\<close>
  throw), returns if there is no 2D context, and else sizes the canvas, sets
  \<open>pageSize\<close> and calls \<open>page.render\<close>. Neither \<open>visible\<close> nor the current props are
  looked at again. Nothing follows the await of line 95. There is nothing to go on
  with when \<open>k\<close> names no waiting call.
\<close>

definition renderPage_resumed :: "nat \<Rightarrow> page_canvas \<Rightarrow> page_canvas" where
  "renderPage_resumed k c =
     (if k < length (inflight c) then
        (let p = inflight c ! k;
             c1 = c\<lparr>inflight := take k (inflight c) @ drop (Suc k) (inflight c)\<rparr>
         in case getPage (pdf p) (pageNumber p) of
              None \<Rightarrow> c1
            | Some page \<Rightarrow>
                (let vp1 = getViewport page 1;
                     baseScale = max (fl (1 / 10)) (fl (fitWidth p / vp_width vp1));
                     scale = fl (baseScale * zoom p);
                     vp = getViewport page scale;
                     asked = [GetViewport 1, GetViewport scale]
                 in
                   (case canvasRef c1 of
                      None \<Rightarrow> c1\<lparr>calls := calls c1 @ asked\<rparr>
                    | Some cv \<Rightarrow>
                        if \<not> context2d cv
                        then c1\<lparr>calls := calls c1 @ asked @ [GetContext2d]\<rparr>
                        else
                          c1\<lparr>canvasRef :=
                                Some (cv\<lparr>canvas_width := \<lfloor>fl (vp_width vp * dpr p)\<rfloor>,
                                         canvas_height := \<lfloor>fl (vp_height vp * dpr p)\<rfloor>,
                                         style_width := Some \<lfloor>vp_width vp\<rfloor>,
                                         style_height := Some \<lfloor>vp_height vp\<rfloor>\<rparr>),
                              pageSize := (\<lfloor>vp_width vp\<rfloor>, \<lfloor>vp_height vp\<rfloor>),
                              calls := calls c1 @ asked
                                         @ [GetContext2d,
                                            Render vp [dpr p, 0, 0, dpr p, 0, 0]]\<rparr>)))
      else c)"

text \<open>
  React's part. \<open>renderPage\<close> is a \<open>useCallback\<close> over
  \<open>[pdf, pageNumber, fitWidth, zoom, dpr, visible]\<close> and the effect of lines 98-100
  depends on \<open>[renderPage]\<close>: at a commit the effect runs, and calls \<open>renderPage\<close>
  once, exactly when that list differs from the one of the previous commit (two
  entries for \<open>pdf\<close> are the same when they are the same document).
  \<open>setPageSize\<close> causes another commit with the same list, at which nothing runs.
\<close>

definition commit :: "page_props \<Rightarrow> page_canvas \<Rightarrow> page_canvas" where
  "commit p c =
     (if deps c = Some (p, visible c) then c
      else (renderPage p c)\<lparr>deps := Some (p, visible c)\<rparr>)"

text \<open>A fresh canvas element is 300 by 150 with no inline style.\<close>

definition fresh_canvas :: "bool \<Rightarrow> canvas" where
  "fresh_canvas has_ctx =
     \<lparr>canvas_width = 300, canvas_height = 150, style_width = None,
      style_height = None, context2d = has_ctx\<rparr>"

text \<open>
  The first render: \<open>useState(false)\<close> for \<open>visible\<close>, \<open>{wCSS: 0, hCSS: 0}\<close> for
  \<open>pageSize\<close>; the canvas of line 108 is attached to the ref before the effects run.
\<close>

definition mount :: "bool \<Rightarrow> page_props \<Rightarrow> page_canvas" where
  "mount has_ctx p =
     commit p \<lparr>visible = False, canvasRef = Some (fresh_canvas has_ctx),
               pageSize = (0, 0), deps = None, calls = [], inflight = []\<rparr>"

text \<open>
  The callback of the \<open>IntersectionObserver\<close> (line 40): \<open>setVisible(b)\<close>, then the
  commit of the re-render with the props \<open>p\<close> the parent last passed.
\<close>

definition intersection :: "bool \<Rightarrow> page_props \<Rightarrow> page_canvas \<Rightarrow> page_canvas" where
  "intersection b p c = commit p (c\<lparr>visible := b\<rparr>)"

text \<open>
  The scale that \<open>renderPage\<close> computes from the props and the fetched page (lines
  73-75), and the condition that neither the division nor the multiplication
  overflows.
\<close>

definition render_scale :: "page_props \<Rightarrow> pdf_page \<Rightarrow> real" where
  "render_scale p page =
     fl (max (fl (1 / 10)) (fl (fitWidth p / vp_width (getViewport page 1))) * zoom p)"

definition scale_in_range :: "page_props \<Rightarrow> pdf_page \<Rightarrow> bool" where
  "scale_in_range p page \<longleftrightarrow>
     in_range (fitWidth p / vp_width (getViewport page 1))
     \<and> in_range (max (fl (1 / 10)) (fl (fitWidth p / vp_width (getViewport page 1)))
                  * zoom p)"

text \<open>What a component shows of its canvas: the backing store and the CSS size.\<close>

definition backing_store :: "page_canvas \<Rightarrow> (int \<times> int) option" where
  "backing_store c =
     (case canvasRef c of
        None \<Rightarrow> None
      | Some cv \<Rightarrow> Some (canvas_width cv, canvas_height cv))"

definition css_size :: "page_canvas \<Rightarrow> (int \<times> int) option" where
  "css_size c =
     (case canvasRef c of
        None \<Rightarrow> None
      | Some cv \<Rightarrow>
          (case (style_width cv, style_height cv) of
             (Some w, Some h) \<Rightarrow> Some (w, h)
           | _ \<Rightarrow> None))"

text \<open>
  Modelled from the spec: pdf.js is not part of the repository. Its \<open>getViewport\<close>,
  "a per-page geometry/view transform query parameterized by a scale factor", gives an
  unrotated page of native size \<open>nw\<close> by \<open>nh\<close> the size \<open>nw * scale\<close> by
  \<open>nh * scale\<close>, each a multiplication of doubles.
\<close>

definition scaled_page :: "real \<Rightarrow> real \<Rightarrow> pdf_page" where
  "scaled_page nw nh =
     \<lparr>getViewport = (\<lambda>scale. \<lparr>vp_width = fl (nw * scale), vp_height = fl (nh * scale)\<rparr>)\<rparr>"

text \<open>
  A document of three US Letter pages (612 by 792 points) and a memo of one A4 page
  (595 by 842).
\<close>

definition letter_doc :: pdf_document where
  "letter_doc =
     \<lparr>doc_numPages = 3,
      getPage = (\<lambda>n. if 1 \<le> n \<and> n \<le> 3 then Some (scaled_page 612 792) else None)\<rparr>"

definition memo_doc :: pdf_document where
  "memo_doc =
     \<lparr>doc_numPages = 1,
      getPage = (\<lambda>n. if n = 1 then Some (scaled_page 595 842) else None)\<rparr>"

text \<open>
  The first page of the letter in a container 781 wide at zoom 1.5 on a density-2
  screen, where every operation is exact; in a container 721 wide at zoom 1 and
  density 1, where the division \<open>705 / 612\<close> is rounded; and in a container 716
  wide at zoom 1.2 (the double nearest to \<open>6 / 5\<close>) and density 1.
\<close>

definition letter_props :: page_props where
  "letter_props =
     \<lparr>pdf = letter_doc, pageNumber = 1, fitWidth = 781 - 16, zoom = 3 / 2, dpr = 2\<rparr>"

definition narrow_props :: page_props where
  "narrow_props =
     \<lparr>pdf = letter_doc, pageNumber = 1, fitWidth = 721 - 16, zoom = 1, dpr = 1\<rparr>"

definition wide_props :: page_props where
  "wide_props =
     \<lparr>pdf = letter_doc, pageNumber = 1, fitWidth = 716 - 16, zoom = fl (6 / 5), dpr = 1\<rparr>"

text \<open>A visible component with nothing drawn yet and no call waiting.\<close>

definition shown_canvas :: page_canvas where
  "shown_canvas =
     \<lparr>visible = True, canvasRef = Some (fresh_canvas True), pageSize = (0, 0),
      deps = None, calls = [], inflight = []\<rparr>"

text \<open>
  A component that was mounted, came into view, began to draw the first page of the
  letter, and left the view before the page arrived.
\<close>

definition hidden_midway :: page_canvas where
  "hidden_midway =
     intersection False letter_props
       (intersection True letter_props (mount True letter_props))"

section \<open>PDFViewerPage\<close>

text \<open>
  Strings hold the UTF-8 bytes of the source's literals; the Turkish letters and the
  ellipsis are written as their bytes.
\<close>

definition u_uml :: string where
  "u_uml = [CHR 0xC3, CHR 0xBC]"

definition c_ced :: string where
  "c_ced = [CHR 0xC3, CHR 0xA7]"

definition ellipsis :: string where
  "ellipsis = [CHR 0xE2, CHR 0x80, CHR 0xA6]"

text \<open>Line 117, the initial \<open>status\<close>.\<close>

definition status_initial :: string where
  "status_initial = ''Hen'' @ u_uml @ ''z dosya se'' @ c_ced @ ''ilmedi.''"

text \<open>Line 142.\<close>

definition status_loading :: string where
  "status_loading = ''PDF y'' @ u_uml @ ''kleniyor'' @ ellipsis"

text \<open>Line 157.\<close>

definition status_error :: string where
  "status_error = ''Hata: PDF y'' @ u_uml @ ''klenemedi.''"

text \<open>Line 182.\<close>

definition status_cleared :: string where
  "status_cleared = ''Temizlendi. Yeni bir PDF y'' @ u_uml @ ''kleyin.''"

text \<open>The decimal digits of a number, as a template literal prints it.\<close>

fun show_nat :: "nat \<Rightarrow> string" where
  "show_nat n =
     (if n < 10 then [char_of (48 + n)]
      else show_nat (n div 10) @ [char_of (48 + n mod 10)])"

text \<open>Line 154, \<open>`Y\<dots>klendi: ${pdf.numPages} sayfa`\<close>.\<close>

definition status_loaded :: "nat \<Rightarrow> string" where
  "status_loaded n = ''Y'' @ u_uml @ ''klendi: '' @ show_nat n @ '' sayfa''"

text \<open>
  A \<open>File\<close>: its \<open>name\<close>, its \<open>type\<close>, and what the \<open>try\<close> block of \<open>loadFile\<close>
  obtains from its bytes: the document that \<open>getDocument\<close> resolves to, or \<open>None\<close> when
  any of its awaits rejects.
\<close>

record js_file =
  file_name :: string
  file_type :: string
  parsed :: "pdf_document option"

text \<open>
  A blob URL is the number of the \<open>URL.createObjectURL\<close> call that made it; such a URL
  is never the empty string, so \<open>if (pdfUrl)\<close> tests for \<open>Some\<close>.
\<close>

type_synonym blob_url = nat

text \<open>
  The state of \<open>PDFViewerPage\<close> (lines 116-127; the \<open>zoom\<close> state is \<open>view_zoom\<close>
  here, \<open>zoom\<close> being the prop of \<open>PageCanvas\<close>), followed by the part of the browser
  the handlers act on: the number of blob URLs created, the log of
  \<open>URL.revokeObjectURL\<close> calls, and the loads whose awaits have not settled yet.
\<close>

record session =
  fileName :: "string option"
  status :: string
  isBusy :: bool
  pdfUrl :: "blob_url option"
  numPages :: nat
  pdfDoc :: "pdf_document option"
  view_zoom :: real
  containerWidth :: real
  urls_created :: nat
  urls_revoked :: "blob_url list"
  pending :: "js_file list"

definition init_session :: session where
  "init_session =
     \<lparr>fileName = None, status = status_initial, isBusy = False, pdfUrl = None,
      numPages = 0, pdfDoc = None, view_zoom = 1, containerWidth = 900,
      urls_created = 0, urls_revoked = [], pending = []\<rparr>"

text \<open>\<open>if (pdfUrl) URL.revokeObjectURL(pdfUrl)\<close>, lines 137 and 177.\<close>

definition revoke_current :: "session \<Rightarrow> session" where
  "revoke_current s =
     (case pdfUrl s of
        None \<Rightarrow> s
      | Some u \<Rightarrow> s\<lparr>urls_revoked := urls_revoked s @ [u]\<rparr>)"

text \<open>
  \<open>loadFile\<close>, lines 135-145: what runs before the first await. \<open>None\<close> is a null
  \<open>file\<close>. The handler is remade whenever \<open>pdfUrl\<close> changes (line 161), so it reads
  the \<open>pdfUrl\<close> of the session it is called in.
\<close>

definition loadFile :: "js_file option \<Rightarrow> session \<Rightarrow> session" where
  "loadFile fo s =
     (case fo of
        None \<Rightarrow> s
      | Some f \<Rightarrow>
          (let s1 = revoke_current s;
               localUrl = urls_created s1
           in s1\<lparr>urls_created := Suc localUrl,
                  pdfUrl := Some localUrl,
                  isBusy := True,
                  status := status_loading,
                  fileName := Some (file_name f),
                  pdfDoc := None,
                  numPages := 0,
                  pending := pending s1 @ [f]\<rparr>))"

text \<open>
  \<open>loadFile\<close>, lines 147-160: the awaits of the \<open>k\<close>-th pending load settle. The
  state updates after an await are applied together (one commit). There is nothing to
  settle when \<open>k\<close> names no pending load.
\<close>

definition loadFile_settled :: "nat \<Rightarrow> session \<Rightarrow> session" where
  "loadFile_settled k s =
     (if k < length (pending s) then
        (let s1 = s\<lparr>pending := take k (pending s) @ drop (Suc k) (pending s)\<rparr>
         in case parsed (pending s ! k) of
              Some d \<Rightarrow> s1\<lparr>pdfDoc := Some d,
                            numPages := doc_numPages d,
                            status := status_loaded (doc_numPages d),
                            isBusy := False\<rparr>
            | None \<Rightarrow> s1\<lparr>status := status_error, isBusy := False\<rparr>)
      else s)"

text \<open>
  Lines 163-166 and 168-172. The \<open>FileList\<close> is a list; \<open>files?.[0]\<close> is its head,
  and undefined when the list is empty or absent. \<open>e.preventDefault()\<close> does not touch
  the session.
\<close>

definition onInputChange :: "js_file list \<Rightarrow> session \<Rightarrow> session" where
  "onInputChange files s =
     (case files of
        [] \<Rightarrow> s
      | f # rest \<Rightarrow> loadFile (Some f) s)"

definition onDrop :: "js_file list \<Rightarrow> session \<Rightarrow> session" where
  "onDrop files s =
     (case files of
        [] \<Rightarrow> s
      | f # rest \<Rightarrow>
          if file_type f = ''application/pdf'' then loadFile (Some f) s else s)"

text \<open>Lines 176-183.\<close>

definition handleClear :: "session \<Rightarrow> session" where
  "handleClear s =
     (revoke_current s)\<lparr>pdfUrl := None, pdfDoc := None, numPages := 0,
                         fileName := None, status := status_cleared\<rparr>"

text \<open>
  \<open>x.toFixed(2)\<close> read back by the unary \<open>+\<close>: the sign is set aside, and of the
  integers \<open>n\<close> with \<open>n / 100\<close> nearest to \<open>x\<close> the larger is taken.
\<close>

definition toFixed2 :: "real \<Rightarrow> real" where
  "toFixed2 x =
     (if x < 0 then - (real_of_int \<lfloor>- x * 100 + 1 / 2\<rfloor> / 100)
      else real_of_int \<lfloor>x * 100 + 1 / 2\<rfloor> / 100)"

text \<open>Lines 185-187; the callback \<open>fitWidth\<close> is \<open>fitWidth_reset\<close> here.\<close>

definition zoomOut :: "session \<Rightarrow> session" where
  "zoomOut s = s\<lparr>view_zoom := max (1 / 2) (toFixed2 (view_zoom s - 1 / 10))\<rparr>"

definition zoomIn :: "session \<Rightarrow> session" where
  "zoomIn s = s\<lparr>view_zoom := min 3 (toFixed2 (view_zoom s + 1 / 10))\<rparr>"

definition fitWidth_reset :: "session \<Rightarrow> session" where
  "fitWidth_reset s = s\<lparr>view_zoom := 1\<rparr>"

text \<open>Lines 124-126, the callback of the resize observer.\<close>

definition onResize :: "real \<Rightarrow> session \<Rightarrow> session" where
  "onResize w s = s\<lparr>containerWidth := min 1200 w\<rparr>"



text \<open>Four files: two PDFs that parse, an image, a PDF that does not parse.\<close>

definition letter_file :: js_file where
  "letter_file =
     \<lparr>file_name = ''letter.pdf'', file_type = ''application/pdf'',
      parsed = Some letter_doc\<rparr>"

definition memo_file :: js_file where
  "memo_file =
     \<lparr>file_name = ''memo.pdf'', file_type = ''application/pdf'',
      parsed = Some memo_doc\<rparr>"

definition image_file :: js_file where
  "image_file = \<lparr>file_name = ''photo.png'', file_type = ''image/png'', parsed = None\<rparr>"

definition broken_file :: js_file where
  "broken_file =
     \<lparr>file_name = ''broken.pdf'', file_type = ''application/pdf'', parsed = None\<rparr>"

text \<open>
  What can happen to a session: the two ways a file arrives, a pending load settling,
  the toolbar buttons, a resize of the container. Neither the disabled state of the
  picker button nor the toolbar being hidden without a document restricts the order:
  every order of events is followed.
\<close>

datatype event =
    InputChange "js_file list"
  | Drop "js_file list"
  | Settled nat
  | Clear
  | ZoomOut
  | ZoomIn
  | FitWidth
  | Resize real

fun step :: "event \<Rightarrow> session \<Rightarrow> session" where
  "step (InputChange files) s = onInputChange files s"
| "step (Drop files) s = onDrop files s"
| "step (Settled k) s = loadFile_settled k s"
| "step Clear s = handleClear s"
| "step ZoomOut s = zoomOut s"
| "step ZoomIn s = zoomIn s"
| "step FitWidth s = fitWidth_reset s"
| "step (Resize w) s = onResize w s"

fun run :: "event list \<Rightarrow> session \<Rightarrow> session" where
  "run [] s = s"
| "run (e # es) s = run es (step e s)"

section \<open>Rounding to doubles\<close>

text \<open>\<open>bits\<close> on numerals, for evaluation.\<close>

lemma bits_eval [simp]:
  "bits 0 = 0"
  "bits (Suc 0) = Suc 0"
  "bits (numeral k) = Suc (bits (numeral k div 2))"
  by (simp_all add: bits.simps [of 0] bits.simps [of "Suc 0"] bits.simps [of "numeral k"])

text \<open>A positive number has its leading digit in place \<open>bits n - 1\<close>.\<close>

lemma bits_bounds: "n \<noteq> 0 \<Longrightarrow> 2 ^ (bits n - 1) \<le> n \<and> n < 2 ^ bits n"
proof (induction n rule: bits.induct)
  case (1 n)
  show ?case
  proof (cases "n div 2 = 0")
    case True
    with 1(2) have "n = 1" by presburger
    then show ?thesis by simp
  next
    case False
    with 1 have ih: "2 ^ (bits (n div 2) - 1) \<le> n div 2" "n div 2 < 2 ^ bits (n div 2)"
      by simp_all
    have b: "bits n = Suc (bits (n div 2))" using 1(2) by (simp add: bits.simps [of n])
    have pos: "bits (n div 2) \<noteq> 0" using False by (simp add: bits.simps [of "n div 2"])
    then have "2 ^ (bits n - 1) = 2 * (2::nat) ^ (bits (n div 2) - 1)"
      unfolding b by (cases "bits (n div 2)") simp_all
    also have "\<dots> \<le> 2 * (n div 2)" using ih(1) by simp
    also have "\<dots> \<le> n" by simp
    finally have lo: "2 ^ (bits n - 1) \<le> n" .
    have "n < 2 * (n div 2) + 2" by presburger
    also have "\<dots> \<le> 2 * 2 ^ bits (n div 2)" using ih(2) by simp
    finally have "n < 2 ^ bits n" unfolding b by simp
    with lo show ?thesis by simp
  qed
qed

lemma bits_pos: "n \<noteq> 0 \<Longrightarrow> 0 < bits n"
  by (simp add: bits.simps [of n])

text \<open>\<open>binade\<close> is the binary exponent.\<close>

lemma binade_bounds:
  assumes "x \<noteq> 0"
  shows "2 powi binade x \<le> \<bar>x\<bar>" and "\<bar>x\<bar> < 2 powi (binade x + 1)"
proof -
  have "2 powi binade x \<le> \<bar>x\<bar> \<and> \<bar>x\<bar> < 2 powi (binade x + 1)"
  proof (cases "1 \<le> \<bar>x\<bar>")
    case True
    define n where "n = nat \<lfloor>\<bar>x\<bar>\<rfloor>"
    have n1: "1 \<le> \<lfloor>\<bar>x\<bar>\<rfloor>" using True by simp
    then have n0: "n \<noteq> 0" by (simp add: n_def)
    have rn: "real n \<le> \<bar>x\<bar>" "\<bar>x\<bar> < real n + 1"
      using n1 by (simp_all add: n_def)
    from bits_bounds [OF n0] have b: "2 ^ (bits n - 1) \<le> n" "n < 2 ^ bits n" by simp_all
    have e: "binade x = int (bits n) - 1" using True by (simp add: binade_def n_def)
    have bp: "0 < bits n" using n0 by (rule bits_pos)
    have "(2::real) powi (int (bits n) - 1) = 2 ^ (bits n - 1)"
      using bp by (simp add: power_int_def nat_diff_distrib')
    also have "\<dots> \<le> real n" using b(1) by (metis of_nat_le_iff of_nat_numeral of_nat_power)
    finally have lo: "2 powi binade x \<le> \<bar>x\<bar>" using rn(1) e by simp
    have "real n + 1 \<le> 2 ^ bits n"
      using b(2) by (metis Suc_leI of_nat_Suc of_nat_le_iff of_nat_numeral of_nat_power add.commute)
    then have "\<bar>x\<bar> < 2 ^ bits n" using rn(2) by linarith
    then have "\<bar>x\<bar> < 2 powi (binade x + 1)" using e by (simp add: power_int_def)
    with lo show ?thesis by simp
  next
    case False
    define a where "a = 1 / \<bar>x\<bar>"
    define c where "c = nat (\<lceil>a\<rceil> - 1)"
    have xp: "0 < \<bar>x\<bar>" "\<bar>x\<bar> < 1" using assms False by simp_all
    then have a1: "1 < a" by (simp add: a_def)
    then have "2 \<le> \<lceil>a\<rceil>" by linarith
    then have c0: "c \<noteq> 0" and cc: "int c = \<lceil>a\<rceil> - 1" by (simp_all add: c_def)
    have ra: "real c < a" "a \<le> real c + 1"
    proof -
      have "real_of_int (\<lceil>a\<rceil> - 1) < a" by linarith
      then show "real c < a" using cc by (metis of_int_of_nat_eq)
      have "a \<le> real_of_int (\<lceil>a\<rceil> - 1) + 1" by simp
      then show "a \<le> real c + 1" using cc by (metis of_int_of_nat_eq)
    qed
    from bits_bounds [OF c0] have b: "2 ^ (bits c - 1) \<le> c" "c < 2 ^ bits c" by simp_all
    have e: "binade x = - int (bits c)" using False by (simp add: binade_def c_def a_def)
    have bp: "0 < bits c" using c0 by (rule bits_pos)
    have "real c + 1 \<le> 2 ^ bits c"
      using b(2) by (metis Suc_leI of_nat_Suc of_nat_le_iff of_nat_numeral of_nat_power add.commute)
    then have "a \<le> 2 ^ bits c" using ra(2) by linarith
    then have "1 / 2 ^ bits c \<le> \<bar>x\<bar>"
      using xp(1) unfolding a_def by (simp add: field_simps)
    moreover have "(2::real) powi (- int (bits c)) = 1 / 2 ^ bits c"
      by (simp add: power_int_minus field_simps)
    ultimately have lo: "2 powi binade x \<le> \<bar>x\<bar>"
      using e by simp
    have "(2::real) ^ (bits c - 1) \<le> real c"
      using b(1) by (metis of_nat_le_iff of_nat_numeral of_nat_power)
    then have "2 ^ (bits c - 1) < a" using ra(1) by linarith
    then have "\<bar>x\<bar> < 1 / 2 ^ (bits c - 1)"
      using xp(1) unfolding a_def by (simp add: field_simps)
    moreover have "(2::real) powi (- int (bits c) + 1) = 1 / 2 ^ (bits c - 1)"
      using bp by (cases "bits c") (simp_all add: power_int_def field_simps)
    ultimately have "\<bar>x\<bar> < 2 powi (binade x + 1)" using e by simp
    with lo show ?thesis by simp
  qed
  then show "2 powi binade x \<le> \<bar>x\<bar>" and "\<bar>x\<bar> < 2 powi (binade x + 1)" by simp_all
qed

lemma round_even_near: "\<bar>real_of_int (round_even y) - y\<bar> \<le> 1 / 2"
  unfolding round_even_def Let_def by (auto; linarith)

text \<open>
  In the normal range \<open>fl\<close> moves its argument by at most half a unit in the last
  place: a relative error of at most \<open>2 ^ (- 53)\<close>.
\<close>

lemma fl_near:
  assumes "2 powi (- 1022) \<le> \<bar>x\<bar>"
  shows "\<bar>fl x - x\<bar> \<le> \<bar>x\<bar> / 2 ^ 53"
proof -
  have x0: "x \<noteq> 0" using assms by auto
  define e where "e = binade x"
  define u :: real where "u = 2 powi (e - 52)"
  have up: "0 < u" by (simp add: u_def)
  have "\<bar>x\<bar> < 2 powi (e + 1)" unfolding e_def by (rule binade_bounds [OF x0])
  with assms have lt: "(2::real) powi (- 1022) < 2 powi (e + 1)" by linarith
  have "\<not> e + 1 \<le> - 1022"
  proof
    assume "e + 1 \<le> - 1022"
    then have "(2::real) powi (e + 1) \<le> 2 powi (- 1022)"
      by (intro power_int_increasing) simp_all
    with lt show False by linarith
  qed
  then have m: "max e (- 1022) = e" by simp
  have f: "fl x = real_of_int (round_even (x / u)) * u"
    using x0 m by (simp add: fl_def Let_def e_def [symmetric] u_def)
  have "fl x - x = (real_of_int (round_even (x / u)) - x / u) * u"
    unfolding f using up by (simp add: field_simps)
  then have "\<bar>fl x - x\<bar> = \<bar>real_of_int (round_even (x / u)) - x / u\<bar> * u"
    using up by (simp add: abs_mult)
  also have "\<dots> \<le> 1 / 2 * u"
    using round_even_near [of "x / u"] up by (intro mult_right_mono) simp_all
  also have "\<dots> = 2 powi e / 2 ^ 53"
    by (simp add: u_def power_int_diff)
  also have "\<dots> \<le> \<bar>x\<bar> / 2 ^ 53"
    using binade_bounds(1) [OF x0] by (simp add: e_def divide_right_mono)
  finally show ?thesis .
qed

text \<open>The rules that evaluate \<open>fl\<close> at a given number, and the literal \<open>0.1\<close> of line 74.\<close>

lemmas fl_eval = fl_def binade_def round_even_def Let_def

lemma fl_tenth: "fl (1 / 10) = 3602879701896397 / 36028797018963968"
  by (simp add: fl_eval)

text \<open>The relative error of a maximum is at most that of its arguments.\<close>

lemma max_near:
  fixes a b a' b' :: real
  assumes "\<bar>b' - b\<bar> \<le> b / 2 ^ 53" and "\<bar>a' - a\<bar> \<le> a / 2 ^ 53" and "0 < b" and "0 < a"
  shows "\<bar>max a' b' - max a b\<bar> \<le> max a b / 2 ^ 53"
proof -
  have e: "(2::real) ^ 53 = 9007199254740992" by simp
  show ?thesis
    using assms unfolding e max_def
    by (cases "a' \<le> b'"; cases "a \<le> b"; simp only: if_True if_False; linarith)
qed

section \<open>The page surface renderer\<close>

text \<open>
  What a waiting call of \<open>renderPage\<close> does when nothing stops it: its page is
  delivered, the canvas is attached and has a 2D context.
\<close>

lemma renderPage_resumed_draws:
  assumes "k < length (inflight c)" and "inflight c ! k = p"
    and "canvasRef c = Some cv" and "context2d cv"
    and "getPage (pdf p) (pageNumber p) = Some page"
  shows "renderPage_resumed k c =
           c\<lparr>canvasRef := Some (cv\<lparr>
                 canvas_width :=
                   \<lfloor>fl (vp_width (getViewport page (render_scale p page)) * dpr p)\<rfloor>,
                 canvas_height :=
                   \<lfloor>fl (vp_height (getViewport page (render_scale p page)) * dpr p)\<rfloor>,
                 style_width := Some \<lfloor>vp_width (getViewport page (render_scale p page))\<rfloor>,
                 style_height := Some \<lfloor>vp_height (getViewport page (render_scale p page))\<rfloor>\<rparr>),
             pageSize := (\<lfloor>vp_width (getViewport page (render_scale p page))\<rfloor>,
                          \<lfloor>vp_height (getViewport page (render_scale p page))\<rfloor>),
             calls := calls c @ [GetViewport 1, GetViewport (render_scale p page),
                                 GetContext2d,
                                 Render (getViewport page (render_scale p page))
                                        [dpr p, 0, 0, dpr p, 0, 0]],
             inflight := take k (inflight c) @ drop (Suc k) (inflight c)\<rparr>"
  using assms by (simp add: renderPage_resumed_def render_scale_def Let_def)

lemma renderPage_hidden: "\<not> visible c \<Longrightarrow> renderPage p c = c"
  by (simp add: renderPage_def)

lemma renderPage_begins:
  "visible c \<Longrightarrow> canvasRef c \<noteq> None \<Longrightarrow>
   renderPage p c = c\<lparr>calls := calls c @ [GetPage (pageNumber p)],
                       inflight := inflight c @ [p]\<rparr>"
  by (simp add: renderPage_def)

text \<open>The examples: a draw begun on the visible component waits as call 0.\<close>

lemma letter_getPage:
  "getPage (pdf letter_props) (pageNumber letter_props) = Some (scaled_page 612 792)"
  by (simp add: letter_props_def letter_doc_def)

lemma narrow_getPage:
  "getPage (pdf narrow_props) (pageNumber narrow_props) = Some (scaled_page 612 792)"
  by (simp add: narrow_props_def letter_doc_def)

lemma shown_canvas_ready:
  "visible shown_canvas" "canvasRef shown_canvas = Some (fresh_canvas True)"
  "context2d (fresh_canvas True)"
  by (simp_all add: shown_canvas_def fresh_canvas_def)

lemma begun_on_shown:
  "0 < length (inflight (renderPage p shown_canvas))"
  "inflight (renderPage p shown_canvas) ! 0 = p"
  "canvasRef (renderPage p shown_canvas) = Some (fresh_canvas True)"
  "calls (renderPage p shown_canvas) = [GetPage (pageNumber p)]"
  by (simp_all add: renderPage_def shown_canvas_def)

lemma letter_native: "vp_width (getViewport (scaled_page 612 792) 1) = 612"
  by (simp add: scaled_page_def fl_def binade_def round_even_def Let_def)

lemma letter_scale: "render_scale letter_props (scaled_page 612 792) = 15 / 8"
  unfolding render_scale_def letter_native fl_tenth
  by (simp add: letter_props_def fl_def binade_def round_even_def Let_def)

lemma letter_viewport:
  "getViewport (scaled_page 612 792) (15 / 8) = \<lparr>vp_width = 2295 / 2, vp_height = 1485\<rparr>"
  by (simp add: scaled_page_def fl_def binade_def round_even_def Let_def)

lemma letter_in_range: "scale_in_range letter_props (scaled_page 612 792)"
  unfolding scale_in_range_def letter_native fl_tenth
  by (simp add: letter_props_def in_range_def fl_def binade_def round_even_def Let_def)

lemma narrow_scale:
  "render_scale narrow_props (scaled_page 612 792) = 2593985079490359 / 2251799813685248"
  unfolding render_scale_def letter_native fl_tenth
  by (simp add: narrow_props_def fl_def binade_def round_even_def Let_def)

lemma narrow_viewport:
  "getViewport (scaled_page 612 792) (2593985079490359 / 2251799813685248) =
     \<lparr>vp_width = 6201245580656639 / 8796093022208,
      vp_height = 4012570669836649 / 4398046511104\<rparr>"
  by (simp add: scaled_page_def fl_def binade_def round_even_def Let_def)

lemma narrow_in_range: "scale_in_range narrow_props (scaled_page 612 792)"
  unfolding scale_in_range_def letter_native fl_tenth
  by (simp add: narrow_props_def in_range_def fl_def binade_def round_even_def Let_def)

lemma wide_getPage:
  "getPage (pdf wide_props) (pageNumber wide_props) = Some (scaled_page 612 792)"
  by (simp add: wide_props_def letter_doc_def)

lemma wide_scale:
  "render_scale wide_props (scaled_page 612 792) = 6181411253253621 / 4503599627370496"
  unfolding render_scale_def letter_native fl_tenth
  by (simp add: wide_props_def fl_eval)

lemma wide_in_range: "scale_in_range wide_props (scaled_page 612 792)"
  unfolding scale_in_range_def letter_native fl_tenth
  by (simp add: wide_props_def in_range_def fl_eval)

text \<open>
  The computed scale is the claim's real number \<open>max(0.1, w / nativeWidth) * z\<close> up to
  the three roundings (of \<open>0.1\<close>, of the quotient, of the product): a relative error
  below \<open>2 ^ (- 51)\<close>, where quotient and product are normal doubles.
\<close>

lemma render_scale_near_exact:
  assumes w: "0 < fitWidth p" and n: "0 < vp_width (getViewport page 1)"
    and qn: "2 powi (- 1022) \<le> fitWidth p / vp_width (getViewport page 1)"
    and zn: "2 powi (- 1000) \<le> \<bar>zoom p\<bar>"
  shows "\<bar>render_scale p page
           - max (1 / 10) (fitWidth p / vp_width (getViewport page 1)) * zoom p\<bar>
         \<le> max (1 / 10) (fitWidth p / vp_width (getViewport page 1)) * \<bar>zoom p\<bar> / 2 ^ 51"
proof -
  define q where "q = fitWidth p / vp_width (getViewport page 1)"
  define M where "M = max (1 / 10) q"
  define m where "m = max (fl (1 / 10)) (fl q)"
  define Z where "Z = \<bar>zoom p\<bar>"
  have q0: "0 < q" using w n by (simp add: q_def)
  from qn have "2 powi (- 1022) \<le> q" unfolding q_def .
  then have "2 powi (- 1022) \<le> \<bar>q\<bar>" using q0 by linarith
  then have "\<bar>fl q - q\<bar> \<le> \<bar>q\<bar> / 2 ^ 53" by (rule fl_near)
  then have q': "\<bar>fl q - q\<bar> \<le> q / 2 ^ 53" using q0 by simp
  have c: "\<bar>fl (1 / 10) - 1 / 10\<bar> \<le> (1 / 10) / 2 ^ 53" by (simp add: fl_tenth)
  have M0: "1 / 10 \<le> M" by (simp add: M_def)
  have mM: "\<bar>m - M\<bar> \<le> M / 2 ^ 53"
    unfolding m_def M_def using q' c q0 by (intro max_near) simp_all
  have e: "(2::real) ^ 53 = 9007199254740992" by simp
  from mM have m0: "9 / 100 \<le> m" and mle: "m \<le> M + M / 2 ^ 53"
    using M0 unfolding e by linarith+
  have Z0: "0 \<le> Z" by (simp add: Z_def)
  have x: "\<bar>m * zoom p\<bar> = m * Z" using m0 by (simp add: Z_def abs_mult)
  have "(2::real) powi (- 1022) = 2 powi (- 22) * 2 powi (- 1000)" by simp
  also have "\<dots> \<le> (9 / 100) * 2 powi (- 1000)" by (intro mult_right_mono) simp_all
  also have "\<dots> \<le> m * Z" using m0 zn Z0 unfolding Z_def by (intro mult_mono) simp_all
  finally have "2 powi (- 1022) \<le> \<bar>m * zoom p\<bar>" using x by simp
  then have "\<bar>fl (m * zoom p) - m * zoom p\<bar> \<le> \<bar>m * zoom p\<bar> / 2 ^ 53" by (rule fl_near)
  then have s: "\<bar>fl (m * zoom p) - m * zoom p\<bar> \<le> m * Z / 2 ^ 53" using x by simp
  have "\<bar>m * zoom p - M * zoom p\<bar> = \<bar>m - M\<bar> * Z"
    by (simp add: Z_def abs_mult [symmetric] left_diff_distrib)
  also have "\<dots> \<le> M / 2 ^ 53 * Z" using mM Z0 by (rule mult_right_mono)
  finally have d: "\<bar>m * zoom p - M * zoom p\<bar> \<le> M * Z / 2 ^ 53" by simp
  have "m * Z \<le> (M + M / 2 ^ 53) * Z" using mle Z0 by (rule mult_right_mono)
  then have mz: "m * Z \<le> M * Z + M * Z / 2 ^ 53" by (simp add: distrib_right)
  have P0: "0 \<le> M * Z" using M0 Z0 by simp
  have e51: "(2::real) ^ 51 = 2251799813685248" by simp
  have "\<bar>fl (m * zoom p) - M * zoom p\<bar> \<le> M * Z / 2 ^ 51"
    using s d mz P0 unfolding e e51 by linarith
  then show ?thesis
    by (simp add: render_scale_def m_def M_def q_def Z_def)
qed

text \<open>
  C1. For a fit width \<open>w > 0\<close>, a zoom \<open>z\<close> and a native page width \<open>nativeWidth > 0\<close>
  (the width of the viewport at scale 1), a waiting call of \<open>renderPage\<close> that draws
  asks the page for its viewport at the scale \<open>max(0.1, w / nativeWidth) * z\<close>, the
  division and the multiplication being those of doubles, and hands that viewport, and
  no other, to \<open>page.render\<close>. Where the quotient and the zoom are not so small that
  the results are subnormal, the scale is the real number
  \<open>max(0.1, w / nativeWidth) * z\<close> up to a relative error of \<open>2 ^ (- 51)\<close>.
\<close>

theorem renderPage_scale:
  assumes "k < length (inflight c)" and "inflight c ! k = p"
    and "canvasRef c = Some cv" and "context2d cv"
    and "getPage (pdf p) (pageNumber p) = Some page"
    and "0 < fitWidth p" and "0 < vp_width (getViewport page 1)"
    and "scale_in_range p page"
  shows "calls (renderPage_resumed k c) =
           calls c @
           [GetViewport 1,
            GetViewport
              (fl (max (fl (1 / 10)) (fl (fitWidth p / vp_width (getViewport page 1)))
                   * zoom p)),
            GetContext2d,
            Render (getViewport page
                      (fl (max (fl (1 / 10)) (fl (fitWidth p / vp_width (getViewport page 1)))
                           * zoom p)))
                   [dpr p, 0, 0, dpr p, 0, 0]]
         \<and> (2 powi (- 1022) \<le> fitWidth p / vp_width (getViewport page 1)
              \<and> 2 powi (- 1000) \<le> \<bar>zoom p\<bar> \<longrightarrow>
            \<bar>fl (max (fl (1 / 10)) (fl (fitWidth p / vp_width (getViewport page 1))) * zoom p)
               - max (1 / 10) (fitWidth p / vp_width (getViewport page 1)) * zoom p\<bar>
            \<le> max (1 / 10) (fitWidth p / vp_width (getViewport page 1)) * \<bar>zoom p\<bar> / 2 ^ 51)"
proof (intro conjI impI)
  show "calls (renderPage_resumed k c) =
           calls c @
           [GetViewport 1,
            GetViewport
              (fl (max (fl (1 / 10)) (fl (fitWidth p / vp_width (getViewport page 1)))
                   * zoom p)),
            GetContext2d,
            Render (getViewport page
                      (fl (max (fl (1 / 10)) (fl (fitWidth p / vp_width (getViewport page 1)))
                           * zoom p)))
                   [dpr p, 0, 0, dpr p, 0, 0]]"
    by (simp add: renderPage_resumed_draws [OF assms(1-5)] render_scale_def)
next
  assume a: "2 powi (- 1022) \<le> fitWidth p / vp_width (getViewport page 1)
              \<and> 2 powi (- 1000) \<le> \<bar>zoom p\<bar>"
  from render_scale_near_exact [OF assms(6,7)] a
  show "\<bar>fl (max (fl (1 / 10)) (fl (fitWidth p / vp_width (getViewport page 1))) * zoom p)
               - max (1 / 10) (fitWidth p / vp_width (getViewport page 1)) * zoom p\<bar>
            \<le> max (1 / 10) (fitWidth p / vp_width (getViewport page 1)) * \<bar>zoom p\<bar> / 2 ^ 51"
    by (simp add: render_scale_def)
qed

theorem renderPage_scale_witness:
  "0 < length (inflight (renderPage letter_props shown_canvas))
   \<and> inflight (renderPage letter_props shown_canvas) ! 0 = letter_props
   \<and> canvasRef (renderPage letter_props shown_canvas) = Some (fresh_canvas True)
   \<and> context2d (fresh_canvas True)
   \<and> getPage (pdf letter_props) (pageNumber letter_props) = Some (scaled_page 612 792)
   \<and> 0 < fitWidth letter_props \<and> 0 < vp_width (getViewport (scaled_page 612 792) 1)
   \<and> scale_in_range letter_props (scaled_page 612 792)
   \<and> 2 powi (- 1022) \<le> fitWidth letter_props / vp_width (getViewport (scaled_page 612 792) 1)
   \<and> 2 powi (- 1000) \<le> \<bar>zoom letter_props\<bar>
   \<and> calls (renderPage_resumed 0 (renderPage letter_props shown_canvas)) =
       [GetPage 1, GetViewport 1, GetViewport (15 / 8), GetContext2d,
        Render \<lparr>vp_width = 2295 / 2, vp_height = 1485\<rparr> [2, 0, 0, 2, 0, 0]]"
proof -
  note b = begun_on_shown [of letter_props]
  have w: "0 < fitWidth letter_props" by (simp add: letter_props_def)
  have n: "0 < vp_width (getViewport (scaled_page 612 792) 1)" by (simp add: letter_native)
  have q: "2 powi (- 1022) \<le> fitWidth letter_props / vp_width (getViewport (scaled_page 612 792) 1)"
    unfolding letter_native by (simp add: letter_props_def)
  have z: "2 powi (- 1000) \<le> \<bar>zoom letter_props\<bar>" by (simp add: letter_props_def)
  have s: "fl (max (fl (1 / 10))
                (fl (fitWidth letter_props / vp_width (getViewport (scaled_page 612 792) 1)))
             * zoom letter_props) = 15 / 8"
    using letter_scale by (simp only: render_scale_def)
  from renderPage_scale [OF b(1,2,3) shown_canvas_ready(3) letter_getPage w n letter_in_range]
  have "calls (renderPage_resumed 0 (renderPage letter_props shown_canvas)) =
       [GetPage 1, GetViewport 1, GetViewport (15 / 8), GetContext2d,
        Render \<lparr>vp_width = 2295 / 2, vp_height = 1485\<rparr> [2, 0, 0, 2, 0, 0]]"
    unfolding s letter_viewport b(4) by (simp add: letter_props_def)
  with b(1,2,3) shown_canvas_ready(3) letter_getPage w n letter_in_range q z
  show ?thesis by blast
qed

text \<open>
  C2. A waiting call of \<open>renderPage\<close> that draws sets the backing store of the canvas
  to \<open>floor(scaledWidth * dpr)\<close> by \<open>floor(scaledHeight * dpr)\<close>, the products being
  those of doubles, and its CSS size, and the recorded \<open>pageSize\<close>, to
  \<open>floor(scaledWidth)\<close> by \<open>floor(scaledHeight)\<close>, where \<open>scaledWidth\<close> and
  \<open>scaledHeight\<close> are the width and height of the page's viewport at the computed
  scale.
\<close>

theorem renderPage_sizes:
  assumes "k < length (inflight c)" and "inflight c ! k = p"
    and "canvasRef c = Some cv" and "context2d cv"
    and "getPage (pdf p) (pageNumber p) = Some page"
    and "vp_width (getViewport page 1) \<noteq> 0"
    and "scale_in_range p page"
    and "scale = fl (max (fl (1 / 10)) (fl (fitWidth p / vp_width (getViewport page 1)))
                     * zoom p)"
    and "scaledWidth = vp_width (getViewport page scale)"
    and "scaledHeight = vp_height (getViewport page scale)"
    and "in_range (scaledWidth * dpr p)" and "in_range (scaledHeight * dpr p)"
  shows "backing_store (renderPage_resumed k c) =
           Some (\<lfloor>fl (scaledWidth * dpr p)\<rfloor>, \<lfloor>fl (scaledHeight * dpr p)\<rfloor>)
         \<and> css_size (renderPage_resumed k c) = Some (\<lfloor>scaledWidth\<rfloor>, \<lfloor>scaledHeight\<rfloor>)
         \<and> pageSize (renderPage_resumed k c) = (\<lfloor>scaledWidth\<rfloor>, \<lfloor>scaledHeight\<rfloor>)"
  using assms(8-10)
  by (simp add: renderPage_resumed_draws [OF assms(1-5)] render_scale_def backing_store_def
      css_size_def)

lemma narrow_products:
  "fl (6201245580656639 / 8796093022208 * 1) = 6201245580656639 / 8796093022208"
  "fl (4012570669836649 / 4398046511104 * 1) = 4012570669836649 / 4398046511104"
  by (simp_all add: fl_def binade_def round_even_def Let_def)

theorem renderPage_sizes_witness:
  "0 < length (inflight (renderPage narrow_props shown_canvas))
   \<and> inflight (renderPage narrow_props shown_canvas) ! 0 = narrow_props
   \<and> canvasRef (renderPage narrow_props shown_canvas) = Some (fresh_canvas True)
   \<and> context2d (fresh_canvas True)
   \<and> getPage (pdf narrow_props) (pageNumber narrow_props) = Some (scaled_page 612 792)
   \<and> vp_width (getViewport (scaled_page 612 792) 1) \<noteq> 0
   \<and> scale_in_range narrow_props (scaled_page 612 792)
   \<and> in_range (6201245580656639 / 8796093022208 * dpr narrow_props)
   \<and> in_range (4012570669836649 / 4398046511104 * dpr narrow_props)
   \<and> backing_store (renderPage_resumed 0 (renderPage narrow_props shown_canvas))
       = Some (704, 912)
   \<and> css_size (renderPage_resumed 0 (renderPage narrow_props shown_canvas)) = Some (704, 912)
   \<and> pageSize (renderPage_resumed 0 (renderPage narrow_props shown_canvas)) = (704, 912)"
proof -
  note b = begun_on_shown [of narrow_props]
  have n: "vp_width (getViewport (scaled_page 612 792) 1) \<noteq> 0" by (simp add: letter_native)
  have d: "dpr narrow_props = 1" by (simp add: narrow_props_def)
  have s: "2593985079490359 / 2251799813685248 =
      fl (max (fl (1 / 10))
              (fl (fitWidth narrow_props / vp_width (getViewport (scaled_page 612 792) 1)))
          * zoom narrow_props)"
    using narrow_scale by (simp only: render_scale_def)
  have vw: "6201245580656639 / 8796093022208 =
      vp_width (getViewport (scaled_page 612 792) (2593985079490359 / 2251799813685248))"
    and vh: "4012570669836649 / 4398046511104 =
      vp_height (getViewport (scaled_page 612 792) (2593985079490359 / 2251799813685248))"
    by (simp_all add: narrow_viewport)
  have r: "in_range (6201245580656639 / 8796093022208 * dpr narrow_props)"
    "in_range (4012570669836649 / 4398046511104 * dpr narrow_props)"
    by (simp_all add: d in_range_def)
  from renderPage_sizes [OF b(1,2,3) shown_canvas_ready(3) narrow_getPage n narrow_in_range
      s vw vh r]
  have "backing_store (renderPage_resumed 0 (renderPage narrow_props shown_canvas))
       = Some (704, 912)
   \<and> css_size (renderPage_resumed 0 (renderPage narrow_props shown_canvas)) = Some (704, 912)
   \<and> pageSize (renderPage_resumed 0 (renderPage narrow_props shown_canvas)) = (704, 912)"
    unfolding d narrow_products by simp
  with b(1,2,3) shown_canvas_ready(3) narrow_getPage n narrow_in_range r
  show ?thesis by blast
qed

lemma letter_native_height: "vp_height (getViewport (scaled_page 612 792) 1) = 792"
  by (simp add: scaled_page_def fl_def binade_def round_even_def Let_def)

lemma letter_drawn:
  "backing_store (renderPage_resumed 0 (renderPage letter_props shown_canvas))
     = Some (2295, 2970)"
  "css_size (renderPage_resumed 0 (renderPage letter_props shown_canvas))
     = Some (1147, 1485)"
proof -
  note b = begun_on_shown [of letter_props]
  have d: "dpr letter_props = 2" by (simp add: letter_props_def)
  note r = renderPage_resumed_draws [OF b(1,2,3) shown_canvas_ready(3) letter_getPage]
  show "backing_store (renderPage_resumed 0 (renderPage letter_props shown_canvas))
     = Some (2295, 2970)"
    unfolding r letter_scale letter_viewport d
    by (simp add: backing_store_def fl_eval)
  show "css_size (renderPage_resumed 0 (renderPage letter_props shown_canvas))
     = Some (1147, 1485)"
    unfolding r letter_scale letter_viewport d
    by (simp add: css_size_def)
qed

text \<open>
  C3, as stated, fails. With \<open>logicalWidth = floor(nativeWidth * scale)\<close> the claim
  makes the backing store \<open>floor(logicalWidth * d)\<close> wide. For a US Letter page fitted
  to 765 pixels at zoom 1.5 and density 2 every operation is exact and the scaled
  width is 1147.5: the canvas is 2295 pixels wide, and \<open>floor(1147 * 2)\<close> is 2294.
\<close>

theorem backing_store_floor_counterexample:
  "1 \<le> dpr letter_props \<and> dpr letter_props \<le> 2
   \<and> backing_store (renderPage_resumed 0 (renderPage letter_props shown_canvas))
       = Some (2295, 2970)
   \<and> (\<lfloor>fl (real_of_int \<lfloor>fl (vp_width (getViewport (scaled_page 612 792) 1)
                                  * render_scale letter_props (scaled_page 612 792))\<rfloor>
             * dpr letter_props)\<rfloor>,
       \<lfloor>fl (real_of_int \<lfloor>fl (vp_height (getViewport (scaled_page 612 792) 1)
                                  * render_scale letter_props (scaled_page 612 792))\<rfloor>
             * dpr letter_props)\<rfloor>) = (2294, 2970)"
proof -
  have d: "dpr letter_props = 2" by (simp add: letter_props_def)
  show ?thesis
    unfolding letter_native letter_native_height letter_scale d letter_drawn
    by (simp add: fl_eval)
qed

text \<open>
  C3, amended. For a density \<open>d\<close> in \<open>[1, 2]\<close> and a page whose viewport at a scale is
  its native size times the scale, the logical size of the surface is
  \<open>floor(scaledWidth)\<close> by \<open>floor(scaledHeight)\<close> and the backing store is
  \<open>floor(scaledWidth * d)\<close> by \<open>floor(scaledHeight * d)\<close>, where
  \<open>scaledWidth = nativeWidth * scale\<close> and \<open>scaledHeight = nativeHeight * scale\<close> are
  the scaled dimensions before any floor is taken, all products being those of
  doubles: the scaled size is multiplied by \<open>d\<close> before the floor, not after.
\<close>

theorem backing_store_scaled:
  assumes "k < length (inflight c)" and "inflight c ! k = p"
    and "canvasRef c = Some cv" and "context2d cv"
    and "getPage (pdf p) (pageNumber p) = Some (scaled_page nativeWidth nativeHeight)"
    and "0 < nativeWidth" and "fl nativeWidth = nativeWidth"
    and "1 \<le> dpr p" and "dpr p \<le> 2"
    and "scale = fl (max (fl (1 / 10)) (fl (fitWidth p / nativeWidth)) * zoom p)"
    and "scaledWidth = fl (nativeWidth * scale)"
    and "scaledHeight = fl (nativeHeight * scale)"
    and "in_range (fitWidth p / nativeWidth)"
    and "in_range (max (fl (1 / 10)) (fl (fitWidth p / nativeWidth)) * zoom p)"
    and "in_range (nativeWidth * scale)" and "in_range (nativeHeight * scale)"
    and "in_range (scaledWidth * dpr p)" and "in_range (scaledHeight * dpr p)"
  shows "css_size (renderPage_resumed k c) = Some (\<lfloor>scaledWidth\<rfloor>, \<lfloor>scaledHeight\<rfloor>)
         \<and> backing_store (renderPage_resumed k c) =
             Some (\<lfloor>fl (scaledWidth * dpr p)\<rfloor>, \<lfloor>fl (scaledHeight * dpr p)\<rfloor>)"
proof -
  have n: "vp_width (getViewport (scaled_page nativeWidth nativeHeight) 1) = nativeWidth"
    using assms(7) by (simp add: scaled_page_def)
  have s: "render_scale p (scaled_page nativeWidth nativeHeight) = scale"
    unfolding render_scale_def n assms(10) ..
  have v: "getViewport (scaled_page nativeWidth nativeHeight) scale
             = \<lparr>vp_width = scaledWidth, vp_height = scaledHeight\<rparr>"
    by (simp add: scaled_page_def assms(11,12))
  show ?thesis
    unfolding renderPage_resumed_draws [OF assms(1-5)] s v
    by (simp add: css_size_def backing_store_def)
qed

theorem backing_store_scaled_witness:
  "0 < length (inflight (renderPage wide_props shown_canvas))
   \<and> inflight (renderPage wide_props shown_canvas) ! 0 = wide_props
   \<and> canvasRef (renderPage wide_props shown_canvas) = Some (fresh_canvas True)
   \<and> context2d (fresh_canvas True)
   \<and> getPage (pdf wide_props) (pageNumber wide_props) = Some (scaled_page 612 792)
   \<and> (0::real) < 612 \<and> fl 612 = 612
   \<and> 1 \<le> dpr wide_props \<and> dpr wide_props \<le> 2
   \<and> fl (max (fl (1 / 10)) (fl (fitWidth wide_props / 612)) * zoom wide_props)
       = 6181411253253621 / 4503599627370496
   \<and> fl (612 * (6181411253253621 / 4503599627370496)) = 7388718138654719 / 8796093022208
   \<and> fl (792 * (6181411253253621 / 4503599627370496)) = 4780935266188347 / 4398046511104
   \<and> in_range (fitWidth wide_props / 612)
   \<and> in_range (max (fl (1 / 10)) (fl (fitWidth wide_props / 612)) * zoom wide_props)
   \<and> in_range (612 * (6181411253253621 / 4503599627370496))
   \<and> in_range (792 * (6181411253253621 / 4503599627370496))
   \<and> in_range (7388718138654719 / 8796093022208 * dpr wide_props)
   \<and> in_range (4780935266188347 / 4398046511104 * dpr wide_props)
   \<and> css_size (renderPage_resumed 0 (renderPage wide_props shown_canvas))
       = Some (839, 1087)
   \<and> backing_store (renderPage_resumed 0 (renderPage wide_props shown_canvas))
       = Some (839, 1087)"
proof -
  note b = begun_on_shown [of wide_props]
  have p: "(0::real) < 612" "fl 612 = 612"
    by (simp_all add: fl_eval)
  have d: "1 \<le> dpr wide_props" "dpr wide_props \<le> 2" and d1: "dpr wide_props = 1"
    by (simp_all add: wide_props_def)
  have s: "6181411253253621 / 4503599627370496 =
      fl (max (fl (1 / 10)) (fl (fitWidth wide_props / 612)) * zoom wide_props)"
    using wide_scale unfolding render_scale_def letter_native by simp
  have w: "7388718138654719 / 8796093022208
      = fl (612 * (6181411253253621 / 4503599627370496))"
    and h: "4780935266188347 / 4398046511104
      = fl (792 * (6181411253253621 / 4503599627370496))"
    by (simp_all add: fl_eval)
  have r1: "in_range (fitWidth wide_props / 612)"
    "in_range (max (fl (1 / 10)) (fl (fitWidth wide_props / 612)) * zoom wide_props)"
    using wide_in_range unfolding scale_in_range_def letter_native by simp_all
  have r2: "in_range (612 * (6181411253253621 / 4503599627370496))"
    "in_range (792 * (6181411253253621 / 4503599627370496))"
    "in_range (7388718138654719 / 8796093022208 * dpr wide_props)"
    "in_range (4780935266188347 / 4398046511104 * dpr wide_props)"
    by (simp_all add: in_range_def d1)
  from backing_store_scaled [OF b(1,2,3) shown_canvas_ready(3) wide_getPage p d s w h r1 r2]
  have "css_size (renderPage_resumed 0 (renderPage wide_props shown_canvas))
       = Some (839, 1087)
   \<and> backing_store (renderPage_resumed 0 (renderPage wide_props shown_canvas))
       = Some (839, 1087)"
    unfolding d1 by (simp add: fl_eval)
  with b(1,2,3) shown_canvas_ready(3) wide_getPage p d s [symmetric] w [symmetric]
    h [symmetric] r1 r2
  show ?thesis by blast
qed

section \<open>Drawing and visibility\<close>

lemma commit_hidden:
  "\<not> visible c \<Longrightarrow> calls (commit p c) = calls c \<and> canvasRef (commit p c) = canvasRef c
     \<and> inflight (commit p c) = inflight c \<and> pageSize (commit p c) = pageSize c"
  by (simp add: commit_def renderPage_hidden)

lemma renderPage_keeps: "visible (renderPage p c) = visible c \<and> deps (renderPage p c) = deps c"
  by (simp add: renderPage_def)

lemma commit_deps: "deps (commit p c) = Some (p, visible c) \<and> visible (commit p c) = visible c"
  by (simp add: commit_def renderPage_keeps)

lemma commit_again: "commit p (commit p c) = commit p c"
  using commit_deps [of p c] by (simp add: commit_def [of p "commit p c"])

lemma intersection_begins:
  assumes "\<not> visible c" and "deps c = Some (q, False)" and "canvasRef c \<noteq> None"
  shows "intersection True p c =
           c\<lparr>visible := True, deps := Some (p, True),
             calls := calls c @ [GetPage (pageNumber p)], inflight := inflight c @ [p]\<rparr>"
  using assms by (simp add: intersection_def commit_def renderPage_def)

lemma mount_state:
  "mount b p = \<lparr>visible = False, canvasRef = Some (fresh_canvas b), pageSize = (0, 0),
                deps = Some (p, False), calls = [], inflight = []\<rparr>"
  by (simp add: mount_def commit_def renderPage_def)

text \<open>What the visibility signal is when a waiting call goes on makes no difference.\<close>

lemma resumed_ignores_visible:
  "renderPage_resumed k (c\<lparr>visible := b\<rparr>) = (renderPage_resumed k c)\<lparr>visible := b\<rparr>"
  by (simp add: renderPage_resumed_def Let_def split: option.splits)

lemma hidden_midway_state:
  "hidden_midway =
     \<lparr>visible = False, canvasRef = Some (fresh_canvas True), pageSize = (0, 0),
      deps = Some (letter_props, False), calls = [GetPage 1], inflight = [letter_props]\<rparr>"
proof -
  have n: "pageNumber letter_props = 1" by (simp add: letter_props_def)
  have "intersection True letter_props (mount True letter_props) =
     \<lparr>visible = True, canvasRef = Some (fresh_canvas True), pageSize = (0, 0),
      deps = Some (letter_props, True), calls = [GetPage 1], inflight = [letter_props]\<rparr>"
    by (simp add: mount_state intersection_def commit_def renderPage_def n)
  then show ?thesis
    by (simp add: hidden_midway_def intersection_def commit_def renderPage_def)
qed

lemma hidden_midway_drawn:
  "renderPage_resumed 0 hidden_midway =
     \<lparr>visible = False,
      canvasRef = Some \<lparr>canvas_width = 2295, canvas_height = 2970,
                         style_width = Some 1147, style_height = Some 1485,
                         context2d = True\<rparr>,
      pageSize = (1147, 1485), deps = Some (letter_props, False),
      calls = [GetPage 1, GetViewport 1, GetViewport (15 / 8), GetContext2d,
               Render \<lparr>vp_width = 2295 / 2, vp_height = 1485\<rparr> [2, 0, 0, 2, 0, 0]],
      inflight = []\<rparr>"
proof -
  have h: "0 < length (inflight hidden_midway)" "inflight hidden_midway ! 0 = letter_props"
    "canvasRef hidden_midway = Some (fresh_canvas True)"
    by (simp_all add: hidden_midway_state)
  have d: "dpr letter_props = 2" by (simp add: letter_props_def)
  show ?thesis
    unfolding renderPage_resumed_draws [OF h shown_canvas_ready(3) letter_getPage]
      letter_scale letter_viewport d
    by (simp add: hidden_midway_state fresh_canvas_def fl_eval)
qed

text \<open>
  C5, as stated, fails. The signal is tested once, at line 69, before the page is
  fetched. A component that began a draw while visible and was hidden before the page
  arrived still sizes its canvas and calls \<open>page.render\<close> when the page arrives: the
  surface is written while the signal is false.
\<close>

theorem draw_after_hiding_counterexample:
  "\<not> visible hidden_midway
   \<and> calls hidden_midway = [GetPage 1]
   \<and> backing_store hidden_midway = Some (300, 150)
   \<and> \<not> visible (renderPage_resumed 0 hidden_midway)
   \<and> backing_store (renderPage_resumed 0 hidden_midway) = Some (2295, 2970)
   \<and> calls (renderPage_resumed 0 hidden_midway) =
       [GetPage 1, GetViewport 1, GetViewport (15 / 8), GetContext2d,
        Render \<lparr>vp_width = 2295 / 2, vp_height = 1485\<rparr> [2, 0, 0, 2, 0, 0]]"
  unfolding hidden_midway_drawn
  by (simp add: hidden_midway_state backing_store_def fresh_canvas_def)

text \<open>
  C5, amended. While the visibility signal is false, a call of \<open>renderPage\<close> does
  nothing, and no commit, whatever the props, fetches a page, writes to the canvas or
  leaves a call waiting: no draw begins. When the signal turns true on a committed
  component, the effect begins exactly one draw with the current props: one page
  fetch, one waiting call, and the commit that follows begins nothing more. When the
  page of a waiting call arrives (with a native width other than 0) and the canvas has
  a 2D context, the call makes exactly one \<open>page.render\<close>, at the scale, viewport
  and density of the props it began with; it does so whatever the signal has become in
  the meantime.
\<close>

theorem draw_begins_only_when_visible:
  "(\<not> visible c \<longrightarrow>
      renderPage p c = c \<and> calls (commit p c) = calls c
      \<and> canvasRef (commit p c) = canvasRef c \<and> inflight (commit p c) = inflight c)
   \<and> (\<not> visible c \<and> deps c = Some (q, False) \<and> canvasRef c \<noteq> None \<longrightarrow>
        calls (intersection True p c) = calls c @ [GetPage (pageNumber p)]
        \<and> inflight (intersection True p c) = inflight c @ [p]
        \<and> canvasRef (intersection True p c) = canvasRef c
        \<and> commit p (intersection True p c) = intersection True p c)
   \<and> (k < length (inflight d) \<and> inflight d ! k = r \<and> canvasRef d = Some cv \<and> context2d cv
        \<and> getPage (pdf r) (pageNumber r) = Some page
        \<and> vp_width (getViewport page 1) \<noteq> 0 \<and> scale_in_range r page \<longrightarrow>
        calls (renderPage_resumed k d) =
          calls d @
          [GetViewport 1,
           GetViewport
             (fl (max (fl (1 / 10)) (fl (fitWidth r / vp_width (getViewport page 1)))
                  * zoom r)),
           GetContext2d,
           Render (getViewport page
                     (fl (max (fl (1 / 10)) (fl (fitWidth r / vp_width (getViewport page 1)))
                          * zoom r)))
                  [dpr r, 0, 0, dpr r, 0, 0]]
        \<and> length (filter is_Render (calls (renderPage_resumed k d)))
            = Suc (length (filter is_Render (calls d)))
        \<and> inflight (renderPage_resumed k d) = take k (inflight d) @ drop (Suc k) (inflight d))
   \<and> renderPage_resumed k (d\<lparr>visible := b\<rparr>) = (renderPage_resumed k d)\<lparr>visible := b\<rparr>"
proof (intro conjI impI)
  assume "\<not> visible c"
  then show "renderPage p c = c" by (rule renderPage_hidden)
next
  assume "\<not> visible c"
  then show "calls (commit p c) = calls c" by (simp add: commit_hidden)
next
  assume "\<not> visible c"
  then show "canvasRef (commit p c) = canvasRef c" by (simp add: commit_hidden)
next
  assume "\<not> visible c"
  then show "inflight (commit p c) = inflight c" by (simp add: commit_hidden)
next
  assume a: "\<not> visible c \<and> deps c = Some (q, False) \<and> canvasRef c \<noteq> None"
  then have i: "intersection True p c =
           c\<lparr>visible := True, deps := Some (p, True),
             calls := calls c @ [GetPage (pageNumber p)], inflight := inflight c @ [p]\<rparr>"
    by (intro intersection_begins) simp_all
  show "calls (intersection True p c) = calls c @ [GetPage (pageNumber p)]"
    and "inflight (intersection True p c) = inflight c @ [p]"
    and "canvasRef (intersection True p c) = canvasRef c"
    by (simp_all add: i)
next
  show "commit p (intersection True p c) = intersection True p c"
    by (simp add: intersection_def commit_again)
next
  assume a: "k < length (inflight d) \<and> inflight d ! k = r \<and> canvasRef d = Some cv
        \<and> context2d cv \<and> getPage (pdf r) (pageNumber r) = Some page
        \<and> vp_width (getViewport page 1) \<noteq> 0 \<and> scale_in_range r page"
  then have w: "renderPage_resumed k d =
           d\<lparr>canvasRef := Some (cv\<lparr>
                 canvas_width :=
                   \<lfloor>fl (vp_width (getViewport page (render_scale r page)) * dpr r)\<rfloor>,
                 canvas_height :=
                   \<lfloor>fl (vp_height (getViewport page (render_scale r page)) * dpr r)\<rfloor>,
                 style_width := Some \<lfloor>vp_width (getViewport page (render_scale r page))\<rfloor>,
                 style_height := Some \<lfloor>vp_height (getViewport page (render_scale r page))\<rfloor>\<rparr>),
             pageSize := (\<lfloor>vp_width (getViewport page (render_scale r page))\<rfloor>,
                          \<lfloor>vp_height (getViewport page (render_scale r page))\<rfloor>),
             calls := calls d @ [GetViewport 1, GetViewport (render_scale r page),
                                 GetContext2d,
                                 Render (getViewport page (render_scale r page))
                                        [dpr r, 0, 0, dpr r, 0, 0]],
             inflight := take k (inflight d) @ drop (Suc k) (inflight d)\<rparr>"
    by (intro renderPage_resumed_draws) simp_all
  show "calls (renderPage_resumed k d) =
          calls d @
          [GetViewport 1,
           GetViewport
             (fl (max (fl (1 / 10)) (fl (fitWidth r / vp_width (getViewport page 1)))
                  * zoom r)),
           GetContext2d,
           Render (getViewport page
                     (fl (max (fl (1 / 10)) (fl (fitWidth r / vp_width (getViewport page 1)))
                          * zoom r)))
                  [dpr r, 0, 0, dpr r, 0, 0]]"
    by (simp add: w render_scale_def)
  show "length (filter is_Render (calls (renderPage_resumed k d)))
            = Suc (length (filter is_Render (calls d)))"
    by (simp add: w)
  show "inflight (renderPage_resumed k d) = take k (inflight d) @ drop (Suc k) (inflight d)"
    by (simp add: w)
next
  show "renderPage_resumed k (d\<lparr>visible := b\<rparr>) = (renderPage_resumed k d)\<lparr>visible := b\<rparr>"
    by (rule resumed_ignores_visible)
qed

theorem draw_begins_only_when_visible_witness:
  "\<not> visible (mount True letter_props)
   \<and> deps (mount True letter_props) = Some (letter_props, False)
   \<and> canvasRef (mount True letter_props) \<noteq> None
   \<and> calls (mount True letter_props) = []
   \<and> calls (commit narrow_props (mount True letter_props)) = []
   \<and> inflight (commit narrow_props (mount True letter_props)) = []
   \<and> calls (intersection True letter_props (mount True letter_props)) = [GetPage 1]
   \<and> inflight (intersection True letter_props (mount True letter_props)) = [letter_props]
   \<and> 0 < length (inflight hidden_midway) \<and> inflight hidden_midway ! 0 = letter_props
   \<and> canvasRef hidden_midway = Some (fresh_canvas True) \<and> context2d (fresh_canvas True)
   \<and> getPage (pdf letter_props) (pageNumber letter_props) = Some (scaled_page 612 792)
   \<and> vp_width (getViewport (scaled_page 612 792) 1) \<noteq> 0
   \<and> scale_in_range letter_props (scaled_page 612 792)
   \<and> calls (renderPage_resumed 0 hidden_midway) =
       [GetPage 1, GetViewport 1, GetViewport (15 / 8), GetContext2d,
        Render \<lparr>vp_width = 2295 / 2, vp_height = 1485\<rparr> [2, 0, 0, 2, 0, 0]]
   \<and> inflight (renderPage_resumed 0 hidden_midway) = []"
proof -
  have m: "\<not> visible (mount True letter_props)"
    "deps (mount True letter_props) = Some (letter_props, False)"
    "canvasRef (mount True letter_props) \<noteq> None"
    "calls (mount True letter_props) = []" "inflight (mount True letter_props) = []"
    by (simp_all add: mount_state)
  have h: "0 < length (inflight hidden_midway)" "inflight hidden_midway ! 0 = letter_props"
    "canvasRef hidden_midway = Some (fresh_canvas True)" "calls hidden_midway = [GetPage 1]"
    by (simp_all add: hidden_midway_state)
  have n: "vp_width (getViewport (scaled_page 612 792) 1) \<noteq> 0" by (simp add: letter_native)
  have pn: "pageNumber letter_props = 1" and d: "dpr letter_props = 2"
    by (simp_all add: letter_props_def)
  have s: "fl (max (fl (1 / 10))
                (fl (fitWidth letter_props / vp_width (getViewport (scaled_page 612 792) 1)))
             * zoom letter_props) = 15 / 8"
    using letter_scale by (simp only: render_scale_def)
  note t1 = draw_begins_only_when_visible [of "mount True letter_props" narrow_props
      letter_props 0 hidden_midway letter_props "fresh_canvas True" "scaled_page 612 792" True]
  note t2 = draw_begins_only_when_visible [of "mount True letter_props" letter_props
      letter_props 0 hidden_midway letter_props "fresh_canvas True" "scaled_page 612 792" True]
  from t1 m have a: "calls (commit narrow_props (mount True letter_props)) = []"
    "inflight (commit narrow_props (mount True letter_props)) = []" by simp_all
  from t2 m pn have b: "calls (intersection True letter_props (mount True letter_props))
      = [GetPage 1]"
    "inflight (intersection True letter_props (mount True letter_props)) = [letter_props]"
    by simp_all
  from t2 h shown_canvas_ready(3) letter_getPage n letter_in_range
  have "calls (renderPage_resumed 0 hidden_midway) =
          calls hidden_midway @
          [GetViewport 1,
           GetViewport
             (fl (max (fl (1 / 10))
                      (fl (fitWidth letter_props
                           / vp_width (getViewport (scaled_page 612 792) 1)))
                  * zoom letter_props)),
           GetContext2d,
           Render (getViewport (scaled_page 612 792)
                     (fl (max (fl (1 / 10))
                              (fl (fitWidth letter_props
                                   / vp_width (getViewport (scaled_page 612 792) 1)))
                          * zoom letter_props)))
                  [dpr letter_props, 0, 0, dpr letter_props, 0, 0]]"
    and i: "inflight (renderPage_resumed 0 hidden_midway)
         = take 0 (inflight hidden_midway) @ drop (Suc 0) (inflight hidden_midway)"
    by blast+
  then have c: "calls (renderPage_resumed 0 hidden_midway) =
       [GetPage 1, GetViewport 1, GetViewport (15 / 8), GetContext2d,
        Render \<lparr>vp_width = 2295 / 2, vp_height = 1485\<rparr> [2, 0, 0, 2, 0, 0]]"
    unfolding s letter_viewport d h(4) by simp
  have e: "inflight (renderPage_resumed 0 hidden_midway) = []"
    using i by (simp add: hidden_midway_state)
  from m(1-4) a b h(1-3) shown_canvas_ready(3) letter_getPage n letter_in_range c e
  show ?thesis by blast
qed

section \<open>Sessions\<close>

text \<open>A run is its last event applied to what the earlier ones reached.\<close>

lemma run_snoc: "run (es @ [e]) s = step e (run es s)"
  by (induction es arbitrary: s) simp_all

section \<open>Zoom\<close>

text \<open>
  \<open>toFixed2\<close> rounds to hundredths: it leaves tenths alone, its value is a whole
  number of hundredths, and it moves its argument by at most half a hundredth.
\<close>

lemma floor_half_int: "\<lfloor>real_of_int n + 1 / 2\<rfloor> = n"
  by linarith

lemma toFixed2_tenths: "toFixed2 (real_of_int k / 10) = real_of_int k / 10"
proof -
  have a: "real_of_int k / 10 * 100 + 1 / 2 = real_of_int (10 * k) + 1 / 2" by simp
  have b: "- (real_of_int k / 10) * 100 + 1 / 2 = real_of_int (- 10 * k) + 1 / 2" by simp
  show ?thesis
    unfolding toFixed2_def a b floor_half_int by simp
qed

lemma toFixed2_hundredths: "\<exists>m::int. toFixed2 x = real_of_int m / 100"
proof (cases "x < 0")
  case True
  then have "toFixed2 x = real_of_int (- \<lfloor>- x * 100 + 1 / 2\<rfloor>) / 100"
    by (simp add: toFixed2_def)
  then show ?thesis by blast
next
  case False
  then have "toFixed2 x = real_of_int \<lfloor>x * 100 + 1 / 2\<rfloor> / 100"
    by (simp add: toFixed2_def)
  then show ?thesis by blast
qed

lemma toFixed2_near: "\<bar>toFixed2 x - x\<bar> \<le> 1 / 200"
proof -
  have f: "\<bar>real_of_int \<lfloor>y + 1 / 2\<rfloor> - y\<bar> \<le> 1 / 2" for y :: real
    by linarith
  show ?thesis
  proof (cases "x < 0")
    case True
    define r where "r = real_of_int \<lfloor>- x * 100 + 1 / 2\<rfloor>"
    have "\<bar>r - (- x * 100)\<bar> \<le> 1 / 2" unfolding r_def by (rule f)
    moreover have "toFixed2 x = - (r / 100)" using True by (simp add: toFixed2_def r_def)
    ultimately show ?thesis by linarith
  next
    case False
    define r where "r = real_of_int \<lfloor>x * 100 + 1 / 2\<rfloor>"
    have "\<bar>r - x * 100\<bar> \<le> 1 / 2" unfolding r_def by (rule f)
    moreover have "toFixed2 x = r / 100" using False by (simp add: toFixed2_def r_def)
    ultimately show ?thesis by linarith
  qed
qed

text \<open>
  The zoom of a session is a whole number of tenths between 5 and 30, which each
  button keeps: on such a value the rounding changes nothing.
\<close>

lemma zoomIn_tenths:
  assumes "view_zoom s = real_of_int k / 10"
  shows "view_zoom (zoomIn s) = min 3 (real_of_int (k + 1) / 10)"
proof -
  have "view_zoom s + 1 / 10 = real_of_int (k + 1) / 10" using assms by simp
  then have t: "toFixed2 (view_zoom s + 1 / 10) = real_of_int (k + 1) / 10"
    by (simp only: toFixed2_tenths)
  have "view_zoom (zoomIn s) = min 3 (toFixed2 (view_zoom s + 1 / 10))"
    by (simp add: zoomIn_def)
  then show ?thesis by (simp only: t)
qed

lemma zoomOut_tenths:
  assumes "view_zoom s = real_of_int k / 10"
  shows "view_zoom (zoomOut s) = max (1 / 2) (real_of_int (k - 1) / 10)"
proof -
  have "view_zoom s - 1 / 10 = real_of_int (k - 1) / 10" using assms by simp
  then have t: "toFixed2 (view_zoom s - 1 / 10) = real_of_int (k - 1) / 10"
    by (simp only: toFixed2_tenths)
  have "view_zoom (zoomOut s) = max (1 / 2) (toFixed2 (view_zoom s - 1 / 10))"
    by (simp add: zoomOut_def)
  then show ?thesis by (simp only: t)
qed

lemma loadFile_zoom: "view_zoom (loadFile fo s) = view_zoom s"
  by (simp add: loadFile_def revoke_current_def Let_def split: option.splits)

lemma step_zoom_other:
  "e \<noteq> ZoomIn \<Longrightarrow> e \<noteq> ZoomOut \<Longrightarrow> e \<noteq> FitWidth \<Longrightarrow> view_zoom (step e s) = view_zoom s"
  by (cases e)
     (auto simp: onInputChange_def onDrop_def loadFile_zoom loadFile_settled_def Let_def
        handleClear_def revoke_current_def onResize_def split: list.splits option.splits)

lemma step_tenths:
  assumes "\<exists>k::int. 5 \<le> k \<and> k \<le> 30 \<and> view_zoom s = real_of_int k / 10"
  shows "\<exists>k::int. 5 \<le> k \<and> k \<le> 30 \<and> view_zoom (step e s) = real_of_int k / 10"
proof -
  from assms obtain k :: int where k: "5 \<le> k" "k \<le> 30" "view_zoom s = real_of_int k / 10"
    by blast
  consider (zin) "e = ZoomIn" | (zout) "e = ZoomOut" | (fit) "e = FitWidth"
    | (other) "e \<noteq> ZoomIn" "e \<noteq> ZoomOut" "e \<noteq> FitWidth" by blast
  then show ?thesis
  proof cases
    case zin
    have "view_zoom (step e s) = real_of_int (min 30 (k + 1)) / 10"
      using zoomIn_tenths [OF k(3)] zin by (simp add: min_def)
    moreover have "5 \<le> min 30 (k + 1)" "min 30 (k + 1) \<le> 30" using k by simp_all
    ultimately show ?thesis by blast
  next
    case zout
    have "view_zoom (step e s) = real_of_int (max 5 (k - 1)) / 10"
      using zoomOut_tenths [OF k(3)] zout by (simp add: max_def)
    moreover have "5 \<le> max 5 (k - 1)" "max 5 (k - 1) \<le> 30" using k by simp_all
    ultimately show ?thesis by blast
  next
    case fit
    have "view_zoom (step e s) = real_of_int 10 / 10" using fit by (simp add: fitWidth_reset_def)
    then show ?thesis by (intro exI [of _ 10]) simp
  next
    case other
    then show ?thesis using k step_zoom_other [of e s] by auto
  qed
qed

lemma run_tenths:
  "\<exists>k::int. 5 \<le> k \<and> k \<le> 30 \<and> view_zoom (run es init_session) = real_of_int k / 10"
proof (induction es rule: rev_induct)
  case Nil
  have "view_zoom (run [] init_session) = real_of_int 10 / 10" by (simp add: init_session_def)
  then show ?case by (intro exI [of _ 10]) simp
next
  case (snoc e es)
  then show ?case unfolding run_snoc by (rule step_tenths)
qed

text \<open>At a bound the button that leads out of the range does nothing, however often.\<close>

lemma zoomOut_floor: "view_zoom s = 1 / 2 \<Longrightarrow> view_zoom ((zoomOut ^^ n) s) = 1 / 2"
proof (induction n)
  case 0
  then show ?case by simp
next
  case (Suc n)
  then have "view_zoom ((zoomOut ^^ n) s) = real_of_int 5 / 10" by simp
  from zoomOut_tenths [OF this] show ?case by simp
qed

lemma zoomIn_ceiling: "view_zoom s = 3 \<Longrightarrow> view_zoom ((zoomIn ^^ n) s) = 3"
proof (induction n)
  case 0
  then show ?case by simp
next
  case (Suc n)
  then have "view_zoom ((zoomIn ^^ n) s) = real_of_int 30 / 10" by simp
  from zoomIn_tenths [OF this] show ?case by simp
qed

text \<open>
  C4. In every session the zoom lies in \<open>[0.5, 3.0]\<close>; zoom-in takes it to
  \<open>min(3, zoom + 0.1)\<close> and zoom-out to \<open>max(0.5, zoom - 0.1)\<close>, the step being 0.1
  and the result being rounded to two decimal places (\<open>toFixed2\<close>, a whole number of
  hundredths within half a hundredth of its argument) before it is clamped. At zoom
  0.5 any number of zoom-outs leaves 0.5, and at zoom 3.0 any number of zoom-ins
  leaves 3.0.
\<close>

theorem zoom_stepping:
  "1 / 2 \<le> view_zoom (run es init_session) \<and> view_zoom (run es init_session) \<le> 3
   \<and> view_zoom (zoomIn (run es init_session)) = min 3 (view_zoom (run es init_session) + 1 / 10)
   \<and> view_zoom (zoomOut (run es init_session))
       = max (1 / 2) (view_zoom (run es init_session) - 1 / 10)
   \<and> view_zoom (zoomIn s) = min 3 (toFixed2 (view_zoom s + 1 / 10))
   \<and> view_zoom (zoomOut s) = max (1 / 2) (toFixed2 (view_zoom s - 1 / 10))
   \<and> (\<exists>m::int. toFixed2 x = real_of_int m / 100) \<and> \<bar>toFixed2 x - x\<bar> \<le> 1 / 200
   \<and> (view_zoom lo = 1 / 2 \<longrightarrow> view_zoom ((zoomOut ^^ n) lo) = 1 / 2)
   \<and> (view_zoom hi = 3 \<longrightarrow> view_zoom ((zoomIn ^^ n) hi) = 3)"
proof -
  obtain k :: int where k: "5 \<le> k" "k \<le> 30"
    "view_zoom (run es init_session) = real_of_int k / 10"
    using run_tenths [of es] by blast
  have "1 / 2 \<le> view_zoom (run es init_session)" "view_zoom (run es init_session) \<le> 3"
    using k by simp_all
  moreover have up: "real_of_int (k + 1) / 10 = view_zoom (run es init_session) + 1 / 10"
    and down: "real_of_int (k - 1) / 10 = view_zoom (run es init_session) - 1 / 10"
    using k(3) by simp_all
  have "view_zoom (zoomIn (run es init_session))
      = min 3 (view_zoom (run es init_session) + 1 / 10)"
    using zoomIn_tenths [OF k(3)] by (simp only: up)
  moreover have "view_zoom (zoomOut (run es init_session))
      = max (1 / 2) (view_zoom (run es init_session) - 1 / 10)"
    using zoomOut_tenths [OF k(3)] by (simp only: down)
  moreover have "view_zoom (zoomIn s) = min 3 (toFixed2 (view_zoom s + 1 / 10))"
    "view_zoom (zoomOut s) = max (1 / 2) (toFixed2 (view_zoom s - 1 / 10))"
    by (simp_all add: zoomIn_def zoomOut_def)
  ultimately show ?thesis
    using toFixed2_hundredths [of x] toFixed2_near [of x] zoomOut_floor [of lo n]
      zoomIn_ceiling [of hi n]
    by simp
qed

text \<open>Five steps down from 1 reach the lower bound, twenty steps up the upper one.\<close>

lemma five_out: "view_zoom (run [ZoomOut, ZoomOut, ZoomOut, ZoomOut, ZoomOut] init_session) = 1 / 2"
  by (simp add: zoomOut_def toFixed2_def init_session_def)

lemma twenty_in: "view_zoom (run (replicate 20 ZoomIn) init_session) = 3"
  by (simp add: eval_nat_numeral zoomIn_def toFixed2_def init_session_def)

text \<open>
  The bounds do not depend on the subtraction and the addition being exact: an error
  below half a hundredth in \<open>0.5 - 0.1\<close> or in \<open>3 + 0.1\<close> is rounded away or clamped.
\<close>

lemma zoom_bounds_absorb_error:
  assumes "\<bar>e\<bar> < 1 / 200"
  shows "max (1 / 2) (toFixed2 (1 / 2 - 1 / 10 + e)) = 1 / 2"
    and "min 3 (toFixed2 (3 + 1 / 10 + e)) = 3"
proof -
  have "\<bar>toFixed2 (1 / 2 - 1 / 10 + e) - (1 / 2 - 1 / 10 + e)\<bar> \<le> 1 / 200"
    by (rule toFixed2_near)
  then have "toFixed2 (1 / 2 - 1 / 10 + e) \<le> 1 / 2" using assms by linarith
  then show "max (1 / 2) (toFixed2 (1 / 2 - 1 / 10 + e)) = 1 / 2" by simp
  have "\<bar>toFixed2 (3 + 1 / 10 + e) - (3 + 1 / 10 + e)\<bar> \<le> 1 / 200"
    by (rule toFixed2_near)
  then have "3 \<le> toFixed2 (3 + 1 / 10 + e)" using assms by linarith
  then show "min 3 (toFixed2 (3 + 1 / 10 + e)) = 3" by simp
qed

theorem zoom_stepping_witness:
  "view_zoom (run [ZoomOut, ZoomOut, ZoomOut, ZoomOut, ZoomOut] init_session) = 1 / 2
   \<and> view_zoom ((zoomOut ^^ 4) (run [ZoomOut, ZoomOut, ZoomOut, ZoomOut, ZoomOut] init_session))
       = 1 / 2
   \<and> view_zoom (run (replicate 20 ZoomIn) init_session) = 3
   \<and> view_zoom ((zoomIn ^^ 4) (run (replicate 20 ZoomIn) init_session)) = 3
   \<and> view_zoom (zoomIn (run [ZoomOut, ZoomOut] init_session)) = 9 / 10"
  using zoom_stepping [of "[ZoomOut, ZoomOut]" init_session 0
      "run [ZoomOut, ZoomOut, ZoomOut, ZoomOut, ZoomOut] init_session" 4
      "run (replicate 20 ZoomIn) init_session"]
    five_out twenty_in
  by (simp add: zoomOut_def toFixed2_def init_session_def)

section \<open>Blob URLs\<close>

text \<open>What \<open>loadFile\<close> and \<open>handleClear\<close> do to the URLs.\<close>

lemma loadFile_urls:
  "urls_created (loadFile (Some f) s) = Suc (urls_created s)"
  "pdfUrl (loadFile (Some f) s) = Some (urls_created s)"
  "urls_revoked (loadFile (Some f) s) = urls_revoked (revoke_current s)"
  by (simp_all add: loadFile_def revoke_current_def Let_def split: option.splits)

lemma handleClear_urls:
  "urls_created (handleClear s) = urls_created s"
  "pdfUrl (handleClear s) = None"
  "urls_revoked (handleClear s) = urls_revoked (revoke_current s)"
  by (simp_all add: handleClear_def revoke_current_def split: option.splits)

lemma revoke_current_log:
  "urls_revoked (revoke_current s) =
     (case pdfUrl s of None \<Rightarrow> urls_revoked s | Some u \<Rightarrow> urls_revoked s @ [u])"
  by (simp add: revoke_current_def split: option.splits)

text \<open>The other events touch no URL.\<close>

lemma step_urls_other:
  assumes "\<forall>files. e \<noteq> InputChange files" and "\<forall>files. e \<noteq> Drop files" and "e \<noteq> Clear"
  shows "urls_created (step e s) = urls_created s \<and> pdfUrl (step e s) = pdfUrl s
         \<and> urls_revoked (step e s) = urls_revoked s"
  using assms
  by (cases e)
     (auto simp: loadFile_settled_def Let_def zoomOut_def zoomIn_def fitWidth_reset_def
        onResize_def split: option.splits)

lemma count_list_snoc: "count_list (xs @ [x]) y = count_list xs y + (if x = y then 1 else 0)"
  by (induction xs) simp_all

text \<open>
  The invariant: the URL in \<open>pdfUrl\<close> has been created, and the log of revocations
  holds every created URL other than the one in \<open>pdfUrl\<close> once, and nothing else.
\<close>

lemma loadFile_urls_inv:
  assumes "\<forall>u. pdfUrl s = Some u \<longrightarrow> u < urls_created s"
    and "\<forall>u. count_list (urls_revoked s) u
              = (if u < urls_created s \<and> pdfUrl s \<noteq> Some u then 1 else 0)"
  shows "(\<forall>u. pdfUrl (loadFile (Some f) s) = Some u \<longrightarrow> u < urls_created (loadFile (Some f) s))
       \<and> (\<forall>u. count_list (urls_revoked (loadFile (Some f) s)) u
              = (if u < urls_created (loadFile (Some f) s) \<and> pdfUrl (loadFile (Some f) s) \<noteq> Some u
                 then 1 else 0))"
  using assms
  by (cases "pdfUrl s") (auto simp: loadFile_urls revoke_current_log count_list_snoc)

lemma handleClear_urls_inv:
  assumes "\<forall>u. pdfUrl s = Some u \<longrightarrow> u < urls_created s"
    and "\<forall>u. count_list (urls_revoked s) u
              = (if u < urls_created s \<and> pdfUrl s \<noteq> Some u then 1 else 0)"
  shows "(\<forall>u. pdfUrl (handleClear s) = Some u \<longrightarrow> u < urls_created (handleClear s))
       \<and> (\<forall>u. count_list (urls_revoked (handleClear s)) u
              = (if u < urls_created (handleClear s) \<and> pdfUrl (handleClear s) \<noteq> Some u
                 then 1 else 0))"
  using assms
  by (cases "pdfUrl s") (auto simp: handleClear_urls revoke_current_log count_list_snoc)

lemma step_urls_inv:
  assumes "\<forall>u. pdfUrl s = Some u \<longrightarrow> u < urls_created s"
    and "\<forall>u. count_list (urls_revoked s) u
              = (if u < urls_created s \<and> pdfUrl s \<noteq> Some u then 1 else 0)"
  shows "(\<forall>u. pdfUrl (step e s) = Some u \<longrightarrow> u < urls_created (step e s))
       \<and> (\<forall>u. count_list (urls_revoked (step e s)) u
              = (if u < urls_created (step e s) \<and> pdfUrl (step e s) \<noteq> Some u then 1 else 0))"
proof (cases e)
  case (InputChange files)
  show ?thesis
  proof (cases files)
    case Nil
    with InputChange assms show ?thesis by (simp add: onInputChange_def)
  next
    case (Cons f rest)
    with InputChange loadFile_urls_inv [OF assms, of f] show ?thesis
      by (simp add: onInputChange_def)
  qed
next
  case (Drop files)
  show ?thesis
  proof (cases files)
    case Nil
    with Drop assms show ?thesis by (simp add: onDrop_def)
  next
    case (Cons f rest)
    show ?thesis
    proof (cases "file_type f = ''application/pdf''")
      case True
      with Drop Cons loadFile_urls_inv [OF assms, of f] show ?thesis
        by (simp add: onDrop_def)
    next
      case False
      with Drop Cons assms show ?thesis by (simp add: onDrop_def)
    qed
  qed
next
  case Clear
  with handleClear_urls_inv [OF assms] show ?thesis by simp
next
  case (Settled k)
  then show ?thesis using assms step_urls_other [of e s] by simp
next
  case ZoomOut
  then show ?thesis using assms step_urls_other [of e s] by simp
next
  case ZoomIn
  then show ?thesis using assms step_urls_other [of e s] by simp
next
  case FitWidth
  then show ?thesis using assms step_urls_other [of e s] by simp
next
  case (Resize w)
  then show ?thesis using assms step_urls_other [of e s] by simp
qed

lemma run_urls_inv:
  "(\<forall>u. pdfUrl (run es init_session) = Some u \<longrightarrow> u < urls_created (run es init_session))
   \<and> (\<forall>u. count_list (urls_revoked (run es init_session)) u
          = (if u < urls_created (run es init_session) \<and> pdfUrl (run es init_session) \<noteq> Some u
             then 1 else 0))"
proof (induction es rule: rev_induct)
  case Nil
  show ?case by (simp add: init_session_def)
next
  case (snoc e es)
  then show ?case unfolding run_snoc by (intro step_urls_inv) simp_all
qed

text \<open>
  C6. After any sequence of events, every blob URL that was created and is no longer
  the session's \<open>pdfUrl\<close> has been revoked exactly once, and the URL still in
  \<open>pdfUrl\<close>, like any URL never created, has not been revoked. A load creates one
  fresh URL and makes it the \<open>pdfUrl\<close>; Clear leaves none. The URL that a load
  replaces or that Clear drops is revoked by that very call, once, and neither call
  revokes anything when there is no URL.
\<close>

theorem blob_url_released_once:
  "(\<forall>u. count_list (urls_revoked (run es init_session)) u
          = (if u < urls_created (run es init_session) \<and> pdfUrl (run es init_session) \<noteq> Some u
             then 1 else 0))
   \<and> pdfUrl (loadFile (Some f) s) = Some (urls_created s)
   \<and> urls_created (loadFile (Some f) s) = Suc (urls_created s)
   \<and> pdfUrl (handleClear s) = None
   \<and> urls_created (handleClear s) = urls_created s
   \<and> (pdfUrl s = Some v \<longrightarrow>
        urls_revoked (loadFile (Some f) s) = urls_revoked s @ [v]
        \<and> urls_revoked (handleClear s) = urls_revoked s @ [v])
   \<and> (pdfUrl t = None \<longrightarrow>
        urls_revoked (loadFile (Some f) t) = urls_revoked t
        \<and> urls_revoked (handleClear t) = urls_revoked t)"
  using run_urls_inv [of es]
  by (simp add: loadFile_urls handleClear_urls revoke_current_log)

theorem blob_url_released_once_witness:
  "pdfUrl (run [Drop [letter_file]] init_session) = Some 0
   \<and> pdfUrl init_session = None
   \<and> urls_revoked (loadFile (Some broken_file) (run [Drop [letter_file]] init_session)) = [0]
   \<and> urls_revoked (handleClear init_session) = []
   \<and> urls_created (run [Drop [letter_file], InputChange [broken_file], Clear] init_session) = 2
   \<and> pdfUrl (run [Drop [letter_file], InputChange [broken_file], Clear] init_session) = None
   \<and> count_list (urls_revoked
        (run [Drop [letter_file], InputChange [broken_file], Clear] init_session)) 0 = 1
   \<and> count_list (urls_revoked
        (run [Drop [letter_file], InputChange [broken_file], Clear] init_session)) 1 = 1"
proof -
  have a: "pdfUrl (run [Drop [letter_file]] init_session) = Some 0"
    "urls_revoked (run [Drop [letter_file]] init_session) = []"
    by (simp_all add: onDrop_def loadFile_def revoke_current_def init_session_def
        letter_file_def Let_def)
  have b: "pdfUrl init_session = None" "urls_revoked init_session = []"
    by (simp_all add: init_session_def)
  have c: "urls_created (run [Drop [letter_file], InputChange [broken_file], Clear] init_session) = 2"
    "pdfUrl (run [Drop [letter_file], InputChange [broken_file], Clear] init_session) = None"
    by (simp_all add: onDrop_def onInputChange_def handleClear_def loadFile_def
        revoke_current_def init_session_def letter_file_def Let_def)
  note t = blob_url_released_once [of "[Drop [letter_file], InputChange [broken_file], Clear]"
      broken_file "run [Drop [letter_file]] init_session" 0 init_session]
  from t a b c show ?thesis by simp
qed

section \<open>Clear\<close>

text \<open>
  C7, as stated, fails. On the session before any file was selected, which has no
  document, Clear leaves the status \<open>status_cleared\<close> (line 182), not the placeholder
  \<open>status_initial\<close> of line 117.
\<close>

theorem clear_status_counterexample:
  "pdfDoc init_session = None \<and> numPages init_session = 0
   \<and> status init_session = status_initial
   \<and> status (handleClear init_session) = status_cleared
   \<and> status (handleClear init_session) \<noteq> status init_session"
  by (simp add: handleClear_def revoke_current_def init_session_def status_cleared_def
      status_initial_def)

text \<open>
  C7, amended. On a session with no document (no handle, page count 0) Clear leaves
  the handle absent and the page count 0, and sets the status to the text of line 182,
  which is not the initial placeholder. On the session before any file was selected
  it changes nothing but the status.
\<close>

theorem clear_empty_session:
  assumes "pdfDoc s = None" and "numPages s = 0"
  shows "pdfDoc (handleClear s) = pdfDoc s \<and> numPages (handleClear s) = numPages s
         \<and> status (handleClear s) = status_cleared
         \<and> status_cleared \<noteq> status_initial
         \<and> handleClear init_session = init_session\<lparr>status := status_cleared\<rparr>"
  using assms
  by (simp add: handleClear_def revoke_current_def init_session_def status_cleared_def
      status_initial_def split: option.splits)

theorem clear_empty_session_witness:
  "pdfDoc init_session = None \<and> numPages init_session = 0
   \<and> pdfDoc (handleClear init_session) = None \<and> numPages (handleClear init_session) = 0
   \<and> status (handleClear init_session) = status_cleared"
proof -
  have e: "pdfDoc init_session = None" "numPages init_session = 0"
    by (simp_all add: init_session_def)
  from clear_empty_session [OF e] e show ?thesis by simp
qed

section \<open>Dropped and picked files\<close>

text \<open>
  C8. A drop whose file has a type other than \<open>application/pdf\<close> leaves the session
  as it was: no load is pending, no document, no blob URL created or revoked, the same
  status and every other field unchanged. The file is the first of the drop; what
  follows it does not matter.
\<close>

theorem drop_other_type_ignored:
  assumes "file_type f \<noteq> ''application/pdf''"
  shows "onDrop (f # rest) s = s"
  using assms by (simp add: onDrop_def)

theorem drop_other_type_ignored_witness:
  "file_type image_file \<noteq> ''application/pdf''
   \<and> onDrop [image_file] init_session = init_session
   \<and> onDrop [image_file, letter_file] (run [Drop [letter_file], Settled 0] init_session)
       = run [Drop [letter_file], Settled 0] init_session"
proof -
  have t: "file_type image_file \<noteq> ''application/pdf''" by (simp add: image_file_def)
  from drop_other_type_ignored [OF t, of "[]" init_session]
    drop_other_type_ignored [OF t, of "[letter_file]" "run [Drop [letter_file], Settled 0] init_session"]
    t
  show ?thesis by simp
qed

text \<open>
  C10. Of several files picked or dropped at once only the first counts. The picker
  loads the first file. The drop handler loads the first file when its type is
  \<open>application/pdf\<close> and does nothing otherwise. A load makes its file, and no other,
  a pending load and the selected file. So both handlers do what they do when given
  the first file alone, whatever follows it in the list.
\<close>

theorem first_file_only:
  "onInputChange (f # rest) s = loadFile (Some f) s
   \<and> onDrop (f # rest) s
       = (if file_type f = ''application/pdf'' then loadFile (Some f) s else s)
   \<and> pending (loadFile (Some f) s) = pending s @ [f]
   \<and> fileName (loadFile (Some f) s) = Some (file_name f)
   \<and> onInputChange (f # rest) s = onInputChange [f] s
   \<and> onDrop (f # rest) s = onDrop [f] s"
  by (simp add: onInputChange_def onDrop_def loadFile_def revoke_current_def Let_def
      split: option.splits)

theorem first_file_only_witness:
  "pending (onInputChange [image_file, letter_file, memo_file] init_session) = [image_file]
   \<and> pending (onDrop [letter_file, image_file, memo_file] init_session) = [letter_file]
   \<and> fileName (onDrop [letter_file, image_file, memo_file] init_session)
       = Some ''letter.pdf''
   \<and> onDrop [image_file, letter_file, memo_file] init_session = init_session"
proof -
  have t: "file_type letter_file = ''application/pdf''"
    "file_type image_file \<noteq> ''application/pdf''" "file_name letter_file = ''letter.pdf''"
    by (simp_all add: letter_file_def image_file_def)
  have p: "pending init_session = []" by (simp add: init_session_def)
  from first_file_only [of image_file "[letter_file, memo_file]" init_session] t p
  have a: "pending (onInputChange [image_file, letter_file, memo_file] init_session)
      = [image_file]"
    "onDrop [image_file, letter_file, memo_file] init_session = init_session"
    by simp_all
  from first_file_only [of letter_file "[image_file, memo_file]" init_session] t p
  have b: "pending (onDrop [letter_file, image_file, memo_file] init_session) = [letter_file]"
    "fileName (onDrop [letter_file, image_file, memo_file] init_session) = Some ''letter.pdf''"
    by simp_all
  from a b show ?thesis by blast
qed

section \<open>Page count and document handle\<close>
















end
